theory Spec2Isabelle
  imports Complex_Main "HOL-Library.List_Lexorder" "HOL-Library.AList" "HOL-Library.Multiset"
begin

section \<open>Python strings\<close>

text \<open>
  A Python \<open>str\<close> is a sequence of Unicode code points, so a string is a list of
  natural numbers (the curly quotes the normalizer replaces lie beyond one byte).
  \<open>str\<close> turns an ASCII literal into its code points.

  The interpreter's Unicode tables are not part of the repository. The white space
  of \<open>str.split()\<close> and \<open>str.strip()\<close> is a short fixed set and is written out;
  \<open>str.lower\<close>, the decimal value of a digit (the \<open>\d\<close> of a pattern) and the
  builtin \<open>int\<close> are parameters of the functions that call them:
  \<open>lower :: ustr \<Rightarrow> ustr\<close>, \<open>decimal :: nat \<Rightarrow> nat option\<close> (the value of a
  code point that is a decimal digit) and \<open>to_int :: ustr \<Rightarrow> int option\<close>
  (\<open>None\<close> where \<open>int\<close> raises ValueError). So is the interpreter's limit on the
  number of digits \<open>int\<close> converts, \<open>max_str_digits :: nat\<close>: the value of
  \<open>sys.get_int_max_str_digits()\<close>, 4300 unless it was changed, 0 for no limit.
\<close>

type_synonym ustr = "nat list"

definition str :: "string \<Rightarrow> ustr" where
  "str s = map of_char s"

definition nl :: ustr where
  "nl = [10]"

definition is_space :: "nat \<Rightarrow> bool" where
  "is_space c =
     ((9 \<le> c \<and> c \<le> 13) \<or> (28 \<le> c \<and> c \<le> 32) \<or> c = 133 \<or> c = 160 \<or> c = 5760 \<or>
      (8192 \<le> c \<and> c \<le> 8202) \<or> c = 8232 \<or> c = 8233 \<or> c = 8239 \<or> c = 8287 \<or>
      c = 12288)"

definition lstrip :: "ustr \<Rightarrow> ustr" where
  "lstrip s = dropWhile is_space s"

definition rstrip :: "ustr \<Rightarrow> ustr" where
  "rstrip s = rev (dropWhile is_space (rev s))"

definition strip :: "ustr \<Rightarrow> ustr" where
  "strip s = rstrip (lstrip s)"

definition startswith :: "'a list \<Rightarrow> 'a list \<Rightarrow> bool" where
  "startswith s p = (take (length p) s = p)"

definition endswith :: "'a list \<Rightarrow> 'a list \<Rightarrow> bool" where
  "endswith s p = startswith (rev s) (rev p)"

text \<open>\<open>sep.join(parts)\<close>.\<close>

fun join :: "'a list \<Rightarrow> 'a list list \<Rightarrow> 'a list" where
  "join sep [] = []"
| "join sep [x] = x"
| "join sep (x # y # ys) = x @ sep @ join sep (y # ys)"

text \<open>
  \<open>s.split(sep)\<close> and \<open>re.split\<close> on a literal pattern: the pieces between the
  occurrences of \<open>sep\<close>, found from the left without overlap. Every call of the
  scripts passes a non-empty literal.
\<close>

fun split_on :: "'a list \<Rightarrow> 'a list \<Rightarrow> 'a list list" where
  "split_on sep [] = [[]]"
| "split_on sep (c # cs) =
     (if sep \<noteq> [] \<and> startswith (c # cs) sep
      then [] # split_on sep (drop (length sep - 1) cs)
      else (case split_on sep cs of
              [] \<Rightarrow> [[c]]
            | p # ps \<Rightarrow> (c # p) # ps))"

text \<open>\<open>sub in s\<close>.\<close>

fun contains :: "'a list \<Rightarrow> 'a list \<Rightarrow> bool" where
  "contains [] sub = (sub = [])"
| "contains (c # cs) sub = (startswith (c # cs) sub \<or> contains cs sub)"

text \<open>\<open>s.replace(old, new)\<close>, for a non-empty \<open>old\<close>.\<close>

fun replace :: "'a list \<Rightarrow> 'a list \<Rightarrow> 'a list \<Rightarrow> 'a list" where
  "replace old new [] = []"
| "replace old new (c # cs) =
     (if old \<noteq> [] \<and> startswith (c # cs) old
      then new @ replace old new (drop (length old - 1) cs)
      else c # replace old new cs)"

text \<open>\<open>s.split()\<close>: the maximal runs of characters that are not white space.\<close>

function split_ws :: "ustr \<Rightarrow> ustr list" where
  "split_ws s =
     (case dropWhile is_space s of
        [] \<Rightarrow> []
      | c # cs \<Rightarrow>
          (c # takeWhile (\<lambda>x. \<not> is_space x) cs) # split_ws (dropWhile (\<lambda>x. \<not> is_space x) cs))"
  by pat_completeness auto
termination
proof (relation "measure length")
  show "wf (measure length)" by simp
next
  fix s :: ustr and c cs
  assume a: "dropWhile is_space s = c # cs"
  have "length (dropWhile (\<lambda>x. \<not> is_space x) cs) \<le> length cs"
    by (rule length_dropWhile_le)
  moreover have "length (c # cs) \<le> length s"
    using length_dropWhile_le [of is_space s] a by simp
  ultimately show "(dropWhile (\<lambda>x. \<not> is_space x) cs, s) \<in> measure length"
    by simp
qed

declare split_ws.simps [simp del]

section \<open>Weapons: \<open>validate_weapons.py\<close>\<close>

text \<open>
  A source weapon is one row of the markdown table: seven trimmed columns. A generated
  weapon is the decoded JSON file, read at the types of its schema: \<open>name\<close> is a
  string, \<open>system.damage\<close> and \<open>system.grip\<close> are strings, \<open>system.slots\<close> and
  \<open>system.value\<close> are integers; a field is \<open>None\<close> when the key (or \<open>system\<close>
  itself) is absent, where \<open>dict.get\<close> returns its default.
\<close>

record weapon =
  w_name :: ustr
  w_damage :: ustr
  w_grip :: ustr
  w_range :: ustr
  w_properties :: ustr
  w_value :: ustr
  w_slots :: ustr

record gen_weapon =
  g_name :: ustr
  g_damage :: "ustr option"
  g_grip :: "ustr option"
  g_slots :: "int option"
  g_value :: "int option"

text \<open>
  The issue strings of \<open>compare_weapons\<close>, with the values their f-strings print:
  \<open>DAMAGE: source=.. vs generated=..\<close>, \<open>GRIP: source=.. (expected) vs generated=..\<close>,
  \<open>SLOTS: source=.. vs generated=..\<close>, \<open>VALUE: source=..c (text) vs generated=..c\<close>.
\<close>

datatype weapon_issue =
    DAMAGE ustr ustr
  | GRIP ustr ustr ustr
  | SLOTS int int
  | VALUE int ustr int

definition get_default :: "'a option \<Rightarrow> 'a \<Rightarrow> 'a" where
  "get_default v d = (case v of None \<Rightarrow> d | Some x \<Rightarrow> x)"

subsection \<open>\<open>parse_value_to_copper\<close>\<close>

text \<open>
  \<open>re.match\<close> of \<open>\d+\<close> followed by the character \<open>sfx\<close> at the start of the
  text, returning group 1: \<open>acc\<close> holds the digits taken so far, the pattern takes
  digits greedily and backtracks to a shorter run when the suffix does not follow.
\<close>

fun match_digits :: "(nat \<Rightarrow> nat option) \<Rightarrow> nat \<Rightarrow> ustr \<Rightarrow> ustr \<Rightarrow> ustr option" where
  "match_digits decimal sfx acc [] = None"
| "match_digits decimal sfx acc (c # cs) =
     (case (if decimal c \<noteq> None then match_digits decimal sfx (c # acc) cs else None) of
        Some ds \<Rightarrow> Some ds
      | None \<Rightarrow> if acc \<noteq> [] \<and> c = sfx then Some (rev acc) else None)"

text \<open>\<open>re.search\<close>: the match at the leftmost position that has one.\<close>

fun search_digits :: "(nat \<Rightarrow> nat option) \<Rightarrow> nat \<Rightarrow> ustr \<Rightarrow> ustr option" where
  "search_digits decimal sfx [] = None"
| "search_digits decimal sfx (c # cs) =
     (case match_digits decimal sfx [] (c # cs) of
        Some ds \<Rightarrow> Some ds
      | None \<Rightarrow> search_digits decimal sfx cs)"

text \<open>
  \<open>int\<close> of group 1 of a match. The group is a non-empty run of decimal digits, and
  \<open>int\<close> returns the number the run writes in base 10, unless the run has more digits
  than the interpreter's limit: then it raises ValueError (\<open>None\<close>). Leading zeros
  count as digits.
\<close>

definition int_of_digits :: "(nat \<Rightarrow> nat option) \<Rightarrow> ustr \<Rightarrow> int" where
  "int_of_digits decimal ds = foldl (\<lambda>a c. 10 * a + int (get_default (decimal c) 0)) 0 ds"

definition int_digits :: "(nat \<Rightarrow> nat option) \<Rightarrow> nat \<Rightarrow> ustr \<Rightarrow> int option" where
  "int_digits decimal max_str_digits ds =
     (if max_str_digits \<noteq> 0 \<and> max_str_digits < length ds then None
      else Some (int_of_digits decimal ds))"

text \<open>
  The function returns \<open>Some\<close> of the total, and \<open>None\<close> where a call of \<open>int\<close>
  raises ValueError, which the function does not catch.
\<close>

definition parse_value_to_copper :: "(nat \<Rightarrow> nat option) \<Rightarrow> nat \<Rightarrow> ustr \<Rightarrow> int option" where
  "parse_value_to_copper decimal max_str_digits value_str =
     (if value_str = [] \<or> value_str = str ''-'' then Some 0
      else
        let total = 0;
            gold_match = search_digits decimal (of_char CHR ''g'') value_str
        in case (case gold_match of
                   Some ds \<Rightarrow>
                     (case int_digits decimal max_str_digits ds of
                        None \<Rightarrow> None
                      | Some n \<Rightarrow> Some (total + n * 100))
                 | None \<Rightarrow> Some total) of
             None \<Rightarrow> None
           | Some total \<Rightarrow>
               (let silver_match = search_digits decimal (of_char CHR ''s'') value_str
                in case silver_match of
                     Some ds \<Rightarrow>
                       (case int_digits decimal max_str_digits ds of
                          None \<Rightarrow> None
                        | Some n \<Rightarrow> Some (total + n * 10))
                   | None \<Rightarrow> Some total))"

subsection \<open>The field checks of \<open>compare_weapons\<close>\<close>

text \<open>
  The body of the loop over the generated files, for a generated weapon whose
  lowercased name is a key of the source: one definition per check, in the order of
  the source, and their concatenation.
\<close>

definition damage_check :: "weapon \<Rightarrow> gen_weapon \<Rightarrow> weapon_issue list" where
  "damage_check src gen =
     (let src_damage = strip (w_damage src);
          gen_damage = get_default (g_damage gen) [];
          src_normalized =
            (if startswith src_damage (str ''1'') \<or> src_damage = str ''1'' then src_damage
             else str ''1'' @ src_damage)
      in if src_normalized \<noteq> gen_damage \<and> src_damage \<noteq> gen_damage
         then [DAMAGE src_damage gen_damage] else [])"

definition grip_map :: "ustr \<Rightarrow> ustr option" where
  "grip_map = map_of
     [(str ''1H'', str ''1h''), (str ''2H'', str ''2h''),
      (str ''V'', str ''versatile''), (str ''F'', str ''fist'')]"

definition expected_grip :: "(ustr \<Rightarrow> ustr) \<Rightarrow> weapon \<Rightarrow> ustr" where
  "expected_grip lower src =
     get_default (grip_map (strip (w_grip src))) (lower (strip (w_grip src)))"

definition grip_check :: "(ustr \<Rightarrow> ustr) \<Rightarrow> weapon \<Rightarrow> gen_weapon \<Rightarrow> weapon_issue list" where
  "grip_check lower src gen =
     (if expected_grip lower src \<noteq> get_default (g_grip gen) []
      then [GRIP (w_grip src) (expected_grip lower src) (get_default (g_grip gen) [])]
      else [])"

text \<open>
  The \<open>try\<close> block: \<open>int\<close> is the only call in it that can raise, and ValueError is
  caught and dropped.
\<close>

definition slots_check :: "(ustr \<Rightarrow> int option) \<Rightarrow> weapon \<Rightarrow> gen_weapon \<Rightarrow> weapon_issue list" where
  "slots_check to_int src gen =
     (case (if strip (w_slots src) \<notin> set [str ''-'', []] then to_int (strip (w_slots src))
            else Some 0) of
        None \<Rightarrow> []
      | Some src_slots \<Rightarrow>
          (let gen_slots = get_default (g_slots gen) 0
           in if src_slots \<noteq> gen_slots then [SLOTS src_slots gen_slots] else []))"

text \<open>
  The value check stands after the \<open>try\<close> block: a ValueError of
  \<open>parse_value_to_copper\<close> is not caught there, nor by a caller, and ends the run
  (\<open>None\<close>).
\<close>

definition value_check ::
  "(nat \<Rightarrow> nat option) \<Rightarrow> nat \<Rightarrow> weapon \<Rightarrow> gen_weapon \<Rightarrow> weapon_issue list option" where
  "value_check decimal max_str_digits src gen =
     (case parse_value_to_copper decimal max_str_digits (w_value src) of
        None \<Rightarrow> None
      | Some src_value \<Rightarrow>
          (let gen_value = get_default (g_value gen) 0
           in Some (if src_value \<noteq> gen_value then [VALUE src_value (w_value src) gen_value]
                    else [])))"

definition weapon_issues ::
  "(ustr \<Rightarrow> ustr) \<Rightarrow> (ustr \<Rightarrow> int option) \<Rightarrow> (nat \<Rightarrow> nat option) \<Rightarrow> nat \<Rightarrow> weapon \<Rightarrow>
   gen_weapon \<Rightarrow> weapon_issue list option" where
  "weapon_issues lower to_int decimal max_str_digits src gen =
     (case value_check decimal max_str_digits src gen of
        None \<Rightarrow> None
      | Some value_issues \<Rightarrow>
          Some (damage_check src gen @ grip_check lower src gen @ slots_check to_int src gen @
                value_issues))"

section \<open>Perks: \<open>validate_perks.py\<close>\<close>

subsection \<open>\<open>parse_source_perks\<close>\<close>

record perk =
  p_name :: ustr
  p_prerequisite :: ustr
  p_description :: ustr

definition category_headers :: "ustr list" where
  "category_headers =
     [str ''Stat-Based Perks (No Training Required)'', str ''Spell-Based Perks'',
      str ''No Prerequisites'']"

text \<open>The loop over \<open>lines[1:]\<close> of a block, with its two variables.\<close>

fun scan_block_lines :: "ustr list \<Rightarrow> ustr \<Rightarrow> ustr list \<Rightarrow> ustr \<times> ustr list" where
  "scan_block_lines [] prereq description_lines = (prereq, description_lines)"
| "scan_block_lines (line # rest) prereq description_lines =
     (if startswith line (str ''**Prerequisite:**'')
      then scan_block_lines rest (strip (replace (str ''**Prerequisite:**'') [] line))
             description_lines
      else if strip line \<noteq> [] \<and> \<not> startswith line (str ''---'')
      then scan_block_lines rest prereq (description_lines @ [line])
      else scan_block_lines rest prereq description_lines)"

text \<open>
  The body of the loop over the blocks. The dictionary \<open>perks\<close> keeps the order in
  which its keys were first inserted, so it is an association list and an assignment
  is \<open>AList.update\<close> (in place for a key already there, at the end otherwise).
\<close>

definition parse_block :: "(ustr \<Rightarrow> ustr) \<Rightarrow> (ustr \<times> perk) list \<Rightarrow> ustr \<Rightarrow> (ustr \<times> perk) list" where
  "parse_block lower perks block =
     (case split_on nl (strip block) of
        [] \<Rightarrow> perks
      | first # body \<Rightarrow>
          (let name = strip first in
           if name \<in> set category_headers then perks
           else
             (let (prereq, description_lines) = scan_block_lines body [] [];
                  description = strip (join (str '' '') description_lines)
              in if name \<noteq> [] \<and> description \<noteq> []
                 then AList.update (lower name)
                        \<lparr>p_name = name, p_prerequisite = prereq, p_description = description\<rparr>
                        perks
                 else perks)))"

definition parse_source_perks :: "(ustr \<Rightarrow> ustr) \<Rightarrow> ustr \<Rightarrow> (ustr \<times> perk) list" where
  "parse_source_perks lower text =
     (let desc_section =
            (if contains text (str ''## Full Perk Descriptions'')
             then split_on (str ''## Full Perk Descriptions'') text ! 1
             else text);
          perk_blocks = split_on (nl @ str ''### '') desc_section
      in foldl (parse_block lower) [] (tl perk_blocks))"

subsection \<open>\<open>normalize_text\<close>\<close>

text \<open>
  \<open>re.sub(r'<[^>]+>', '', text)\<close>. \<open>tag_end cs\<close> is the text after a match of
  \<open>[^>]+>\<close> at the start of \<open>cs\<close>: at least one character other than the closing
  bracket \<open>gt\<close>, then on to the first \<open>gt\<close>.
\<close>

definition lt :: nat where
  "lt = of_char CHR ''<''"

definition gt :: nat where
  "gt = of_char CHR ''>''"

fun after_gt :: "ustr \<Rightarrow> ustr option" where
  "after_gt [] = None"
| "after_gt (c # cs) = (if c = gt then Some cs else after_gt cs)"

definition tag_end :: "ustr \<Rightarrow> ustr option" where
  "tag_end cs = (case cs of [] \<Rightarrow> None | d # ds \<Rightarrow> if d = gt then None else after_gt ds)"

lemma after_gt_shorter: "after_gt cs = Some r \<Longrightarrow> length r < length cs"
  by (induction cs) (auto split: if_splits)

lemma tag_end_shorter: "tag_end cs = Some r \<Longrightarrow> length r < length cs"
  by (cases cs) (auto simp: tag_end_def split: if_splits dest: after_gt_shorter)

function remove_tags :: "ustr \<Rightarrow> ustr" where
  "remove_tags [] = []"
| "remove_tags (c # cs) =
     (case (if c = lt then tag_end cs else None) of
        Some rest \<Rightarrow> remove_tags rest
      | None \<Rightarrow> c # remove_tags cs)"
  by pat_completeness auto
termination
  by (relation "measure length") (auto split: if_splits dest: tag_end_shorter)

definition normalize_text :: "ustr \<Rightarrow> ustr" where
  "normalize_text text =
     (if text = [] then []
      else
        let text = remove_tags text;
            text = join (str '' '') (split_ws text);
            text = replace [8221] [34] (replace [8220] [34] (replace [8217] [39] text))
        in strip text)"

subsection \<open>\<open>compare_perks\<close>\<close>

text \<open>
  A generated perk is the decoded JSON file: its \<open>name\<close> and \<open>system.description\<close>
  (\<open>None\<close> when absent), both strings. The directory is the list \<open>os.listdir\<close>
  returns, in whatever order, each file name with what loading it gives: the
  exception raised by \<open>json.load\<close> or by the access to \<open>name\<close>, or the perk.
\<close>

record gen_perk =
  gp_name :: ustr
  gp_description :: "ustr option"

datatype error = JSONDecodeError | KeyError | TypeError

type_synonym directory = "(ustr \<times> (error + gen_perk)) list"

text \<open>
  The three issue lines of a description mismatch. The similarity is the quotient of
  two set sizes; the float division is correctly rounded, so its comparison with the
  literal \<open>0.9\<close> is the comparison of the exact quotient with 9/10 for every pair of
  sets of fewer than \<open>2^50\<close> words.
\<close>

datatype perk_issue =
    DESCRIPTION_MISMATCH rat
  | SOURCE ustr
  | GENERATED ustr

datatype discrepancy =
    NOT_IN_SOURCE ustr ustr
  | ISSUES ustr ustr "perk_issue list"
  | MISSING ustr

fun d_file :: "discrepancy \<Rightarrow> ustr" where
  "d_file (NOT_IN_SOURCE perk_name filename) = filename"
| "d_file (ISSUES perk_name filename issues) = filename"
| "d_file (MISSING perk_name) = str ''MISSING''"

definition similarity :: "ustr set \<Rightarrow> ustr set \<Rightarrow> rat" where
  "similarity src_words gen_words =
     (if src_words \<noteq> {} \<and> gen_words \<noteq> {}
      then of_nat (card (src_words \<inter> gen_words)) / of_nat (card (src_words \<union> gen_words))
      else 0)"

definition description_check :: "(ustr \<Rightarrow> ustr) \<Rightarrow> perk \<Rightarrow> gen_perk \<Rightarrow> perk_issue list" where
  "description_check lower src gen =
     (let src_desc = normalize_text (p_description src);
          gen_desc = normalize_text (get_default (gp_description gen) [])
      in if src_desc \<noteq> gen_desc
         then
           (let src_words = set (split_ws (lower src_desc));
                gen_words = set (split_ws (lower gen_desc))
            in if similarity src_words gen_words < 9 / 10
               then [DESCRIPTION_MISMATCH (similarity src_words gen_words),
                     SOURCE (take 150 src_desc), GENERATED (take 150 gen_desc)]
               else [])
         else [])"

text \<open>What one generated file adds to \<open>discrepancies\<close>.\<close>

definition file_discrepancies ::
  "(ustr \<Rightarrow> ustr) \<Rightarrow> (ustr \<times> perk) list \<Rightarrow> ustr \<Rightarrow> gen_perk \<Rightarrow> discrepancy list" where
  "file_discrepancies lower source filename generated =
     (let perk_name = gp_name generated;
          perk_key = lower perk_name
      in case map_of source perk_key of
           None \<Rightarrow> [NOT_IN_SOURCE perk_name filename]
         | Some src \<Rightarrow>
             (let issues = description_check lower src generated
              in if issues \<noteq> [] then [ISSUES perk_name filename issues] else []))"

text \<open>The first loop, over the sorted listing; an exception ends the run.\<close>

fun compare_files ::
  "(ustr \<Rightarrow> ustr) \<Rightarrow> (ustr \<times> perk) list \<Rightarrow> directory \<Rightarrow> error + discrepancy list" where
  "compare_files lower source [] = Inr []"
| "compare_files lower source ((filename, content) # rest) =
     (if \<not> endswith filename (str ''.json'') then compare_files lower source rest
      else
        (case content of
           Inl e \<Rightarrow> Inl e
         | Inr generated \<Rightarrow>
             (case compare_files lower source rest of
                Inl e \<Rightarrow> Inl e
              | Inr discrepancies \<Rightarrow>
                  Inr (file_discrepancies lower source filename generated @ discrepancies))))"

text \<open>The second loop, over the listing as it comes.\<close>

fun generated_names :: "(ustr \<Rightarrow> ustr) \<Rightarrow> directory \<Rightarrow> error + ustr set" where
  "generated_names lower [] = Inr {}"
| "generated_names lower ((filename, content) # rest) =
     (if endswith filename (str ''.json'')
      then
        (case content of
           Inl e \<Rightarrow> Inl e
         | Inr data \<Rightarrow>
             (case generated_names lower rest of
                Inl e \<Rightarrow> Inl e
              | Inr names \<Rightarrow> Inr (insert (lower (gp_name data)) names)))
      else generated_names lower rest)"

definition missing_perks :: "(ustr \<times> perk) list \<Rightarrow> ustr set \<Rightarrow> discrepancy list" where
  "missing_perks source names =
     map (\<lambda>(perk_key, p). MISSING (p_name p))
       (filter (\<lambda>(perk_key, p). perk_key \<notin> names) source)"

definition compare_perks ::
  "(ustr \<Rightarrow> ustr) \<Rightarrow> (ustr \<times> perk) list \<Rightarrow> directory \<Rightarrow> error + discrepancy list" where
  "compare_perks lower source perks_dir =
     (case compare_files lower source (sort_key fst perks_dir) of
        Inl e \<Rightarrow> Inl e
      | Inr discrepancies \<Rightarrow>
          (case generated_names lower perks_dir of
             Inl e \<Rightarrow> Inl e
           | Inr names \<Rightarrow> Inr (discrepancies @ missing_perks source names)))"

section \<open>Spells: \<open>parse_source_spells\<close> of \<open>validate_spells.py\<close>\<close>

record spell =
  s_name :: ustr
  s_damage :: "ustr option"
  s_effect :: ustr
  s_crit :: ustr

record parser_state =
  spells :: "(ustr \<times> spell) list"
  current_spell :: "ustr option"
  current_damage :: "ustr option"
  effect_lines :: "ustr list"
  crit_lines :: "ustr list"
  in_crit :: bool

definition initial_state :: parser_state where
  "initial_state =
     \<lparr>spells = [], current_spell = None, current_damage = None, effect_lines = [],
      crit_lines = [], in_crit = False\<rparr>"

text \<open>\<open>if current_spell:\<close> holds for a name that is neither \<open>None\<close> nor empty.\<close>

definition save_spell :: "(ustr \<Rightarrow> ustr) \<Rightarrow> parser_state \<Rightarrow> (ustr \<times> spell) list" where
  "save_spell lower st =
     (case current_spell st of
        None \<Rightarrow> spells st
      | Some name \<Rightarrow>
          if name = [] then spells st
          else AList.update (lower name)
                 \<lparr>s_name = name, s_damage = current_damage st,
                  s_effect = strip (join nl (effect_lines st)),
                  s_crit = strip (join nl (crit_lines st))\<rparr>
                 (spells st))"

text \<open>The body of the loop over the lines.\<close>

definition spell_line :: "(ustr \<Rightarrow> ustr) \<Rightarrow> parser_state \<Rightarrow> ustr \<Rightarrow> parser_state" where
  "spell_line lower st raw =
     (let line = rstrip raw in
      if startswith line (str ''## '')
      then st\<lparr>spells := save_spell lower st, current_spell := Some (strip (drop 3 line)),
              current_damage := None, effect_lines := [], crit_lines := [], in_crit := False\<rparr>
      else if startswith line (str ''**Damage Base:**'')
      then (let damage = strip (replace (str ''**Damage Base:**'') [] line)
            in st\<lparr>current_damage := Some (if damage = str ''-'' then [] else lower damage)\<rparr>)
      else if startswith line (str ''**Crit:**'')
      then (let crit_text = strip (replace (str ''**Crit:**'') [] line)
            in st\<lparr>in_crit := True,
                   crit_lines := (if crit_text \<noteq> [] then crit_lines st @ [crit_text]
                                  else crit_lines st)\<rparr>)
      else if current_spell st \<noteq> None \<and> current_spell st \<noteq> Some [] \<and> line \<noteq> [] \<and>
              \<not> startswith line (str ''---'')
      then (if in_crit st then st\<lparr>crit_lines := crit_lines st @ [line]\<rparr>
            else st\<lparr>effect_lines := effect_lines st @ [line]\<rparr>)
      else st)"

definition parse_source_spells :: "(ustr \<Rightarrow> ustr) \<Rightarrow> ustr \<Rightarrow> (ustr \<times> spell) list" where
  "parse_source_spells lower text =
     save_spell lower (foldl (spell_line lower) initial_state (split_on nl (strip text)))"

section \<open>Instances of the interpreter's tables\<close>

text \<open>
  For evaluation on concrete inputs: \<open>str.lower\<close>, the table of digits and \<open>int\<close> as
  they are on ASCII texts, \<open>int\<close> under the limit of 4300 digits.
\<close>

definition ascii_lower :: "ustr \<Rightarrow> ustr" where
  "ascii_lower s = map (\<lambda>c. if 65 \<le> c \<and> c \<le> 90 then c + 32 else c) s"

definition ascii_decimal :: "nat \<Rightarrow> nat option" where
  "ascii_decimal c = (if 48 \<le> c \<and> c \<le> 57 then Some (c - 48) else None)"

text \<open>
  \<open>int\<close> of an ASCII text: white space around the number is skipped (the six
  characters of C's \<open>isspace\<close>), one sign \<open>+\<close> or \<open>-\<close> may stand in front, and the
  digits come in non-empty groups separated by single underscores. The digits, without
  the underscores, are counted against the limit.
\<close>

definition c_space :: "nat \<Rightarrow> bool" where
  "c_space c = ((9 \<le> c \<and> c \<le> 13) \<or> c = 32)"

definition ascii_int :: "ustr \<Rightarrow> int option" where
  "ascii_int s =
     (let t = rev (dropWhile c_space (rev (dropWhile c_space s)));
          negative = startswith t (str ''-'');
          body = (if startswith t (str ''-'') \<or> startswith t (str ''+'') then tl t else t);
          groups = split_on (str ''_'') body
      in if list_all (\<lambda>g. g \<noteq> [] \<and> list_all (\<lambda>c. ascii_decimal c \<noteq> None) g) groups
         then (case int_digits ascii_decimal 4300 (concat groups) of
                 None \<Rightarrow> None
               | Some n \<Rightarrow> Some (if negative then - n else n))
         else None)"



text \<open>The weapon row and the generated record of the scenario of the specification.\<close>

definition dagger :: weapon where
  "dagger =
     \<lparr>w_name = str ''Dagger'', w_damage = str ''d4'', w_grip = str ''1H'',
      w_range = str ''Close'', w_properties = str ''Light'', w_value = str ''2s'',
      w_slots = str ''1''\<rparr>"

definition gen_dagger :: gen_weapon where
  "gen_dagger =
     \<lparr>g_name = str ''Dagger'', g_damage = Some (str ''1d4''), g_grip = Some (str ''1h''),
      g_slots = Some 1, g_value = Some 20\<rparr>"

section \<open>Notions used in the proofs\<close>





text \<open>
  The slot check as claim C4 words it: a slot field that is no number counts as 0, like
  the placeholder, and 0 is compared with the generated count.
\<close>

definition claimed_slots_check ::
  "(ustr \<Rightarrow> int option) \<Rightarrow> weapon \<Rightarrow> gen_weapon \<Rightarrow> weapon_issue list" where
  "claimed_slots_check to_int src gen =
     (let src_slots = (if strip (w_slots src) = str ''-'' then 0
                       else get_default (to_int (strip (w_slots src))) 0);
          gen_slots = get_default (g_slots gen) 0
      in if src_slots \<noteq> gen_slots then [SLOTS src_slots gen_slots] else [])"

text \<open>
  What the three \<open>replace\<close> calls of \<open>normalize_text\<close> do to one character: the right
  single quote U+2019 becomes the apostrophe, the double quotes U+201C and U+201D become
  the straight double quote.
\<close>

definition unquote :: "nat \<Rightarrow> nat" where
  "unquote c = (if c = 8217 then 39 else if c = 8220 \<or> c = 8221 then 34 else c)"

text \<open>A list of words as \<open>str.split()\<close> returns it.\<close>

definition good_words :: "ustr list \<Rightarrow> bool" where
  "good_words ws = (\<forall>w\<in>set ws. w \<noteq> [] \<and> (\<forall>c\<in>set w. \<not> is_space c))"

text \<open>A text in which the tag pattern matches nowhere.\<close>

fun notag :: "ustr \<Rightarrow> bool" where
  "notag [] = True"
| "notag (c # cs) = ((c = lt \<longrightarrow> tag_end cs = None) \<and> notag cs)"

text \<open>
  The lines of a block that \<open>parse_source_perks\<close> joins into the description, and the
  name and the description it computes for a block.
\<close>

definition is_description_line :: "ustr \<Rightarrow> bool" where
  "is_description_line line =
     (\<not> startswith line (str ''**Prerequisite:**'') \<and> strip line \<noteq> [] \<and>
      \<not> startswith line (str ''---''))"

definition block_lines :: "ustr \<Rightarrow> ustr list" where
  "block_lines block = split_on nl (strip block)"

definition block_name :: "ustr \<Rightarrow> ustr" where
  "block_name block = strip (hd (block_lines block))"

definition block_description :: "ustr \<Rightarrow> ustr" where
  "block_description block =
     strip (join (str '' '') (filter is_description_line (tl (block_lines block))))"

text \<open>A lowercasing function leaves no ASCII capital letter in its result.\<close>

definition no_capitals :: "(ustr \<Rightarrow> ustr) \<Rightarrow> bool" where
  "no_capitals lower = (\<forall>s. \<forall>c\<in>set (lower s). \<not> (65 \<le> c \<and> c \<le> 90))"

text \<open>What every record of the parsed source satisfies.\<close>

definition record_ok :: "(ustr \<Rightarrow> ustr) \<Rightarrow> ustr \<times> perk \<Rightarrow> bool" where
  "record_ok lower kp =
     (fst kp = lower (p_name (snd kp)) \<and> p_name (snd kp) \<notin> set category_headers \<and>
      p_name (snd kp) \<noteq> [] \<and> p_description (snd kp) \<noteq> [] \<and>
      (\<exists>ls. p_description (snd kp) = strip (join (str '' '') ls) \<and>
         list_all (\<lambda>l. \<not> startswith l (str ''**Prerequisite:**'')) ls))"

text \<open>
  The reading of "curly quotes" in the specification: all four of U+2018, U+2019,
  U+201C and U+201D, each with its straight form.
\<close>

definition straighten :: "nat \<Rightarrow> nat" where
  "straighten c =
     (if c = 8216 \<or> c = 8217 then 39 else if c = 8220 \<or> c = 8221 then 34 else c)"

text \<open>
  The parts of the result of \<open>compare_perks\<close>: the files the first loop reads, what
  one of them adds, the discrepancies of all of them in the order of the sorted listing,
  the lowercased names the second loop collects, and a directory whose JSON files all load.
\<close>

definition is_json :: "ustr \<times> (error + gen_perk) \<Rightarrow> bool" where
  "is_json entry = endswith (fst entry) (str ''.json'')"

definition per_file :: "(ustr \<Rightarrow> ustr) \<Rightarrow> (ustr \<times> perk) list \<Rightarrow> ustr \<times> (error + gen_perk) \<Rightarrow> discrepancy list" where
  "per_file lower source entry =
     (case snd entry of
        Inl e \<Rightarrow> []
      | Inr generated \<Rightarrow> file_discrepancies lower source (fst entry) generated)"

definition per_file_discrepancies :: "(ustr \<Rightarrow> ustr) \<Rightarrow> (ustr \<times> perk) list \<Rightarrow> directory \<Rightarrow> discrepancy list" where
  "per_file_discrepancies lower source perks_dir =
     concat (map (per_file lower source) (filter is_json (sort_key fst perks_dir)))"

definition names_of :: "(ustr \<Rightarrow> ustr) \<Rightarrow> directory \<Rightarrow> ustr set" where
  "names_of lower perks_dir =
     {lower (gp_name g) |fn g. (fn, Inr g) \<in> set perks_dir \<and> endswith fn (str ''.json'')}"

definition all_loaded :: "directory \<Rightarrow> bool" where
  "all_loaded perks_dir = (\<forall>entry\<in>set perks_dir. is_json entry \<longrightarrow> (\<exists>g. snd entry = Inr g))"

text \<open>
  The kinds of line \<open>parse_source_spells\<close> tells apart (on the right-trimmed line), what
  a line adds to the crit buffer once a crit marker has been seen, and the two buffers
  of a block as functions of its lines after the header.
\<close>

definition is_header :: "ustr \<Rightarrow> bool" where
  "is_header line = startswith line (str ''## '')"

definition is_damage :: "ustr \<Rightarrow> bool" where
  "is_damage line = startswith line (str ''**Damage Base:**'')"

definition is_crit :: "ustr \<Rightarrow> bool" where
  "is_crit line = startswith line (str ''**Crit:**'')"

definition is_text_line :: "ustr \<Rightarrow> bool" where
  "is_text_line line = (line \<noteq> [] \<and> \<not> startswith line (str ''---''))"

definition crit_part :: "ustr \<Rightarrow> ustr list" where
  "crit_part line =
     (if is_damage line then []
      else if is_crit line
      then (if strip (replace (str ''**Crit:**'') [] line) \<noteq> []
            then [strip (replace (str ''**Crit:**'') [] line)] else [])
      else if is_text_line line then [line] else [])"

definition block_effect_lines :: "ustr list \<Rightarrow> ustr list" where
  "block_effect_lines body =
     filter (\<lambda>l. is_text_line l \<and> \<not> is_damage l)
       (takeWhile (\<lambda>l. \<not> is_crit l) (map rstrip body))"

definition block_crit_lines :: "ustr list \<Rightarrow> ustr list" where
  "block_crit_lines body =
     concat (map crit_part (dropWhile (\<lambda>l. \<not> is_crit l) (map rstrip body)))"

text \<open>
  The damage field of a block: the last damage line of the block sets it, to the
  lowercased text after the marker, or to the empty text when that text is the
  placeholder \<open>-\<close>; a block without a damage line leaves it \<open>None\<close>.
\<close>

definition damage_of :: "(ustr \<Rightarrow> ustr) \<Rightarrow> ustr \<Rightarrow> ustr" where
  "damage_of lower line =
     (let damage = strip (replace (str ''**Damage Base:**'') [] line)
      in if damage = str ''-'' then [] else lower damage)"

definition block_damage :: "(ustr \<Rightarrow> ustr) \<Rightarrow> ustr list \<Rightarrow> ustr option" where
  "block_damage lower body =
     (if filter is_damage (map rstrip body) = [] then None
      else Some (damage_of lower (last (filter is_damage (map rstrip body)))))"

text \<open>
  The effect buffer as claim C5 words it: every non-empty line that is no separator,
  before the first crit marker.
\<close>

definition claimed_effect_lines :: "ustr list \<Rightarrow> ustr list" where
  "claimed_effect_lines body =
     filter is_text_line (takeWhile (\<lambda>l. \<not> is_crit l) (map rstrip body))"

section \<open>Example data\<close>

text \<open>
  A source document with a category header, a perk, and a block that holds only a
  prerequisite line and a separator; generated perks to compare with.
\<close>

definition perk_text :: ustr where
  "perk_text =
     str ''# Perks'' @ nl @ str ''## Full Perk Descriptions'' @ nl @
     str ''### Spell-Based Perks'' @ nl @ str ''Perks for casters.'' @ nl @
     str ''### Iron Will'' @ nl @ str ''**Prerequisite:** WIS 4'' @ nl @ nl @
     str ''You resist fear.'' @ nl @ str ''---'' @ nl @
     str ''### Nameless'' @ nl @ str ''**Prerequisite:** None'' @ nl @ str ''---''"

definition iron_will :: perk where
  "iron_will =
     \<lparr>p_name = str ''Iron Will'', p_prerequisite = str ''WIS 4'',
      p_description = str ''You resist fear.''\<rparr>"

definition header_block :: ustr where
  "header_block = str ''Spell-Based Perks'' @ nl @ str ''Perks for casters.''"

definition nameless_block :: ustr where
  "nameless_block = str ''Nameless'' @ nl @ str ''**Prerequisite:** None'' @ nl @ nl @ str ''---''"

definition quoted :: perk where
  "quoted =
     \<lparr>p_name = str ''Quoted'', p_prerequisite = [],
      p_description = str ''It'' @ [8217] @ str ''s '' @ [8220] @ str ''safe'' @ [8221] @ str ''.  ''\<rparr>"

definition gen_quoted :: gen_perk where
  "gen_quoted =
     \<lparr>gp_name = str ''Quoted'',
      gp_description = Some (str ''It'' @ [39] @ str ''s '' @ [34] @ str ''safe'' @ [34] @ str ''.'')\<rparr>"

definition gen_iron_will :: gen_perk where
  "gen_iron_will = \<lparr>gp_name = str ''Iron Will'', gp_description = Some (str ''You resists.'')\<rparr>"

definition left_quoted :: perk where
  "left_quoted =
     \<lparr>p_name = str ''Quoted'', p_prerequisite = [],
      p_description = str ''Say '' @ [8216] @ str ''go'' @ [8217]\<rparr>"

definition gen_left_quoted :: gen_perk where
  "gen_left_quoted =
     \<lparr>gp_name = str ''Quoted'', gp_description = Some (str ''Say '' @ [39] @ str ''go'' @ [39])\<rparr>"

text \<open>
  A second source perk with no generated file, a generated perk that is not in the
  source, and one directory listed in two orders.
\<close>

definition keen_eye :: perk where
  "keen_eye =
     \<lparr>p_name = str ''Keen Eye'', p_prerequisite = [], p_description = str ''You see far.''\<rparr>"

definition source_two :: "(ustr \<times> perk) list" where
  "source_two = [(str ''keen eye'', keen_eye), (str ''iron will'', iron_will)]"

definition gen_lucky :: gen_perk where
  "gen_lucky = \<lparr>gp_name = str ''Lucky'', gp_description = None\<rparr>"

definition perks_listing :: directory where
  "perks_listing =
     [(str ''lucky.json'', Inr gen_lucky), (str ''iron-will.json'', Inr gen_iron_will),
      (str ''README.md'', Inl JSONDecodeError)]"

definition perks_listing' :: directory where
  "perks_listing' =
     [(str ''README.md'', Inl JSONDecodeError), (str ''lucky.json'', Inr gen_lucky),
      (str ''iron-will.json'', Inr gen_iron_will)]"

text \<open>A spell document with two blocks.\<close>

definition fireball_body :: "ustr list" where
  "fireball_body =
     [str ''**Damage Base:** Fire'', str ''Burns the target.  '', [],
      str ''**Crit:** Double damage.'', str ''The target falls.'', str ''---'']"

definition spell_text :: ustr where
  "spell_text = join nl (str ''## Fireball'' # fireball_body @ [str ''## Aid'', str ''Helps.''])"

definition fireball :: spell where
  "fireball =
     \<lparr>s_name = str ''Fireball'', s_damage = Some (str ''fire''),
      s_effect = str ''Burns the target.'',
      s_crit = str ''Double damage.'' @ nl @ str ''The target falls.''\<rparr>"

definition aid :: spell where
  "aid = \<lparr>s_name = str ''Aid'', s_damage = None, s_effect = str ''Helps.'', s_crit = []\<rparr>"

section \<open>Evaluation on concrete inputs\<close>

lemma str_Nil [simp]: "str [] = []"
  by (simp add: str_def)

lemma str_Cons [simp]: "str (c # cs) = of_char c # str cs"
  by (simp add: str_def)

lemmas strip_defs = strip_def lstrip_def rstrip_def is_space_def

lemmas eval_defs = nl_def startswith_def endswith_def strip_defs split_ws.simps get_default_def
  ascii_lower_def Let_def

lemmas normalize_defs = normalize_text_def tag_end_def lt_def gt_def

lemmas spell_defs = parse_source_spells_def spell_line_def save_spell_def initial_state_def

section \<open>Properties of the weapon comparator\<close>

subsection \<open>Damage\<close>

text \<open>
  What the damage check accepts: the trimmed source text itself, or the text the
  source computes as \<open>src_normalized\<close>, which carries a leading \<open>1\<close> whenever the
  source text does not start with the character \<open>1\<close>.
\<close>

lemma damage_check_iff:
  "damage_check src gen = [] \<longleftrightarrow>
     get_default (g_damage gen) [] = strip (w_damage src) \<or>
     get_default (g_damage gen) [] =
       (if startswith (strip (w_damage src)) (str ''1'') then strip (w_damage src)
        else str ''1'' @ strip (w_damage src))"
  by (auto simp: damage_check_def Let_def startswith_def)

text \<open>
  The two cases the specification names: \<open>1d6\<close> is accepted for the source \<open>d6\<close>, and
  \<open>d6\<close> is reported for the source \<open>2d6\<close>.
\<close>

lemma damage_d6_examples:
  "damage_check (dagger\<lparr>w_damage := str ''d6''\<rparr>) (gen_dagger\<lparr>g_damage := Some (str ''1d6'')\<rparr>) = []"
  "damage_check (dagger\<lparr>w_damage := str ''2d6''\<rparr>) (gen_dagger\<lparr>g_damage := Some (str ''d6'')\<rparr>) =
     [DAMAGE (str ''2d6'') (str ''d6'')]"
  by (simp_all add: damage_check_def strip_defs startswith_def get_default_def Let_def)

text \<open>
  The scenario of the specification: the row of the dagger against its generated record
  has no issue.
\<close>

lemma dagger_matches:
  "weapon_issues ascii_lower ascii_int ascii_decimal 4300 dagger gen_dagger = Some []"
  by (simp add: dagger_def gen_dagger_def slots_check_def weapon_issues_def damage_check_def
      grip_check_def expected_grip_def grip_map_def value_check_def parse_value_to_copper_def
      strip_defs startswith_def get_default_def ascii_int_def c_space_def ascii_decimal_def
      int_digits_def int_of_digits_def ascii_lower_def)

text \<open>
  C1. The claim: no DAMAGE issue exactly when the generated text equals the source
  text, or equals it with a \<open>1\<close> in front when the source omits a leading count. The
  source text \<open>2d6\<close> has the leading count 2, and the generated text \<open>12d6\<close> differs
  from it; the check tests for a leading \<open>1\<close> instead of a leading count, puts a \<open>1\<close>
  in front of \<open>2d6\<close> and reports no issue.
\<close>

theorem damage_2d6_accepts_12d6:
  "ascii_decimal (hd (str ''2d6'')) = Some 2 \<and> str ''12d6'' \<noteq> str ''2d6'' \<and>
   damage_check (dagger\<lparr>w_damage := str ''2d6''\<rparr>)
     (gen_dagger\<lparr>g_damage := Some (str ''12d6'')\<rparr>) = []"
  by (simp add: damage_check_def strip_defs startswith_def get_default_def ascii_decimal_def)

subsection \<open>Grip\<close>

text \<open>
  C6. The expected grip is the entry of the fixed table for the trimmed source code
  (\<open>1H\<close> to \<open>1h\<close>, \<open>2H\<close> to \<open>2h\<close>, \<open>V\<close> to \<open>versatile\<close>, \<open>F\<close> to \<open>fist\<close>), and a
  code that is not in the table is passed through trimmed and lowercased.
\<close>

theorem grip_lookup:
  "(strip (w_grip src) = str ''1H'' \<longrightarrow> expected_grip lower src = str ''1h'') \<and>
   (strip (w_grip src) = str ''2H'' \<longrightarrow> expected_grip lower src = str ''2h'') \<and>
   (strip (w_grip src) = str ''V'' \<longrightarrow> expected_grip lower src = str ''versatile'') \<and>
   (strip (w_grip src) = str ''F'' \<longrightarrow> expected_grip lower src = str ''fist'') \<and>
   (strip (w_grip src) \<notin> {str ''1H'', str ''2H'', str ''V'', str ''F''} \<longrightarrow>
      expected_grip lower src = lower (strip (w_grip src)))"
  by (simp add: expected_grip_def grip_map_def get_default_def)

theorem grip_lookup_witness:
  "strip (w_grip (dagger\<lparr>w_grip := str ''V ''\<rparr>)) = str ''V'' \<and>
   expected_grip ascii_lower (dagger\<lparr>w_grip := str ''V ''\<rparr>) = str ''versatile'' \<and>
   expected_grip ascii_lower (dagger\<lparr>w_grip := str '' Thrown ''\<rparr>) = str ''thrown''"
  using grip_lookup [of "dagger\<lparr>w_grip := str ''V ''\<rparr>" ascii_lower]
        grip_lookup [of "dagger\<lparr>w_grip := str '' Thrown ''\<rparr>" ascii_lower]
  by (simp add: strip_defs ascii_lower_def)

subsection \<open>Slots\<close>

text \<open>
  Claim C4 as the specification words it counts a slot field that is no number as 0
  and compares 0 with the generated count. The check does that for the empty field and
  the placeholder \<open>-\<close> only: for the field \<open>one\<close>, on which \<open>int\<close> raises
  ValueError, nothing is compared and the generated count 5 is not reported, where the
  count 0 of the claim would be reported against it, as it is for the placeholder.
\<close>

theorem slot_text_not_counted_as_zero:
  "ascii_int (str ''one'') = None \<and>
   slots_check ascii_int (dagger\<lparr>w_slots := str ''one''\<rparr>) (gen_dagger\<lparr>g_slots := Some 5\<rparr>) = [] \<and>
   claimed_slots_check ascii_int (dagger\<lparr>w_slots := str ''one''\<rparr>)
     (gen_dagger\<lparr>g_slots := Some 5\<rparr>) = [SLOTS 0 5] \<and>
   slots_check ascii_int (dagger\<lparr>w_slots := str ''-''\<rparr>) (gen_dagger\<lparr>g_slots := Some 5\<rparr>) =
     [SLOTS 0 5]"
  by (simp add: dagger_def gen_dagger_def slots_check_def claimed_slots_check_def strip_defs
      startswith_def get_default_def ascii_int_def c_space_def ascii_decimal_def)

text \<open>
  C4, amended. The slot field is trimmed. The empty field and the placeholder \<open>-\<close>
  count as 0 and are compared with the generated count; any other field is parsed by
  \<open>int\<close> and the parsed integer is compared; where \<open>int\<close> raises ValueError on such a
  field the exception is dropped, the check is skipped, and no SLOTS issue is among the
  issues of that weapon.
\<close>

theorem slots_parse:
  "(strip (w_slots src) \<in> {str ''-'', []} \<longrightarrow>
      slots_check to_int src gen =
        (if get_default (g_slots gen) 0 = 0 then []
         else [SLOTS 0 (get_default (g_slots gen) 0)])) \<and>
   (strip (w_slots src) \<notin> {str ''-'', []} \<longrightarrow>
      (\<forall>n. to_int (strip (w_slots src)) = Some n \<longrightarrow>
         slots_check to_int src gen =
           (if n = get_default (g_slots gen) 0 then []
            else [SLOTS n (get_default (g_slots gen) 0)])) \<and>
      (to_int (strip (w_slots src)) = None \<longrightarrow>
         slots_check to_int src gen = [] \<and>
         (\<forall>issues. weapon_issues lower to_int decimal max_str_digits src gen = Some issues \<longrightarrow>
            (\<forall>a b. SLOTS a b \<notin> set issues))))"
  by (auto simp: slots_check_def weapon_issues_def damage_check_def grip_check_def
      value_check_def Let_def split: option.splits)

theorem slots_parse_witness:
  "ascii_int (str ''one'') = None \<and> ascii_int (str ''2'') = Some 2 \<and>
   slots_check ascii_int (dagger\<lparr>w_slots := str ''-''\<rparr>) (gen_dagger\<lparr>g_slots := Some 2\<rparr>) =
     [SLOTS 0 2] \<and>
   slots_check ascii_int (dagger\<lparr>w_slots := []\<rparr>) (gen_dagger\<lparr>g_slots := None\<rparr>) = [] \<and>
   slots_check ascii_int (dagger\<lparr>w_slots := str ''2''\<rparr>) gen_dagger = [SLOTS 2 1] \<and>
   slots_check ascii_int (dagger\<lparr>w_slots := str ''one''\<rparr>) gen_dagger = [] \<and>
   weapon_issues ascii_lower ascii_int ascii_decimal 4300 (dagger\<lparr>w_slots := str ''one''\<rparr>)
     gen_dagger = Some []"
  using slots_parse [of "dagger\<lparr>w_slots := str ''-''\<rparr>" ascii_int "gen_dagger\<lparr>g_slots := Some 2\<rparr>"]
        slots_parse [of "dagger\<lparr>w_slots := str ''one''\<rparr>" ascii_int gen_dagger ascii_lower
          ascii_decimal 4300]
  by (simp add: dagger_def gen_dagger_def slots_check_def weapon_issues_def damage_check_def
      grip_check_def expected_grip_def grip_map_def value_check_def parse_value_to_copper_def
      strip_defs startswith_def get_default_def ascii_int_def c_space_def ascii_decimal_def
      int_digits_def int_of_digits_def ascii_lower_def)

subsection \<open>Value\<close>
























section \<open>Properties of the text normalizer\<close>

lemma replace_single:
  "replace [a] [b] s = map (\<lambda>c. if c = a then b else c) s"
  by (induction s) (auto simp: startswith_def)

lemma replace_quotes:
  "replace [8221] [34] (replace [8220] [34] (replace [8217] [39] s)) = map unquote s"
  by (simp add: replace_single unquote_def)

lemma unquote_idem [simp]: "unquote (unquote c) = unquote c"
  by (simp add: unquote_def)

lemma is_space_unquote [simp]: "is_space (unquote c) = is_space c"
  by (simp add: unquote_def is_space_def)

lemma unquote_lt [simp]: "unquote c = lt \<longleftrightarrow> c = lt"
  by (simp add: unquote_def lt_def)

lemma unquote_gt [simp]: "unquote c = gt \<longleftrightarrow> c = gt"
  by (simp add: unquote_def gt_def)

lemma not_space_gt [simp]: "\<not> is_space gt"
  by (simp add: is_space_def gt_def)

lemma is_space_32 [simp]: "is_space 32"
  by (simp add: is_space_def)

lemma lt_neq_32 [simp]: "lt \<noteq> 32" "gt \<noteq> 32" "lt \<noteq> gt"
  by (simp_all add: lt_def gt_def)

subsection \<open>join\<close>

lemma join_Cons: "join sep (w # ws) = (if ws = [] then w else w @ sep @ join sep ws)"
  by (cases ws) simp_all

lemma map_join: "map f (join sep ws) = join (map f sep) (map (map f) ws)"
  by (induction sep ws rule: join.induct) simp_all

lemma set_join: "set (join sep ws) \<subseteq> set sep \<union> \<Union> (set ` set ws)"
  by (induction sep ws rule: join.induct) auto

subsection \<open>split_ws\<close>

lemma split_ws_Nil:
  assumes "dropWhile is_space s = []"
  shows "split_ws s = []"
  by (subst split_ws.simps) (simp only: assms list.case)

lemma split_ws_Cons:
  assumes "dropWhile is_space s = c # cs"
  shows "split_ws s =
    (c # takeWhile (\<lambda>x. \<not> is_space x) cs) # split_ws (dropWhile (\<lambda>x. \<not> is_space x) cs)"
  by (subst split_ws.simps) (simp only: assms list.case)

lemma split_ws_drop: "split_ws (dropWhile is_space s) = split_ws s"
  by (subst split_ws.simps, subst (2) split_ws.simps) (simp only: dropWhile_idem)

lemma good_words_Nil [simp]: "good_words []"
  by (simp add: good_words_def)

lemma good_words_Cons [simp]:
  "good_words (w # ws) \<longleftrightarrow> w \<noteq> [] \<and> (\<forall>c\<in>set w. \<not> is_space c) \<and> good_words ws"
  by (auto simp: good_words_def)

lemma good_split_ws: "good_words (split_ws s)"
proof (induction s rule: split_ws.induct)
  case (1 s)
  show ?case
  proof (cases "dropWhile is_space s")
    case Nil
    then show ?thesis by (simp only: split_ws_Nil good_words_Nil)
  next
    case (Cons c cs)
    have "\<not> is_space c"
      using hd_dropWhile [of is_space s] Cons by simp
    moreover have "\<forall>x\<in>set (takeWhile (\<lambda>x. \<not> is_space x) cs). \<not> is_space x"
      by (auto dest: set_takeWhileD)
    moreover have "good_words (split_ws (dropWhile (\<lambda>x. \<not> is_space x) cs))"
      using Cons by (rule "1.IH")
    ultimately have "good_words ((c # takeWhile (\<lambda>x. \<not> is_space x) cs) #
        split_ws (dropWhile (\<lambda>x. \<not> is_space x) cs))"
      by simp
    then show ?thesis
      by (simp only: split_ws_Cons [OF Cons])
  qed
qed

lemma set_split_ws: "w \<in> set (split_ws s) \<Longrightarrow> set w \<subseteq> set s"
proof (induction s arbitrary: w rule: split_ws.induct)
  case (1 s)
  show ?case
  proof (cases "dropWhile is_space s")
    case Nil
    then have "split_ws s = []" by (rule split_ws_Nil)
    with 1(2) show ?thesis by simp
  next
    case (Cons c cs)
    have sub: "set (c # cs) \<subseteq> set s"
      using set_dropWhileD [of _ is_space s] Cons by auto
    from 1(2) have "w \<in> set ((c # takeWhile (\<lambda>x. \<not> is_space x) cs) #
        split_ws (dropWhile (\<lambda>x. \<not> is_space x) cs))"
      by (simp only: split_ws_Cons [OF Cons])
    then consider "w = c # takeWhile (\<lambda>x. \<not> is_space x) cs"
      | "w \<in> set (split_ws (dropWhile (\<lambda>x. \<not> is_space x) cs))"
      by auto
    then show ?thesis
    proof cases
      case 1
      then show ?thesis using sub by (auto dest: set_takeWhileD)
    next
      case 2
      then have "set w \<subseteq> set (dropWhile (\<lambda>x. \<not> is_space x) cs)"
        by (rule "1.IH" [OF Cons])
      then show ?thesis using sub by (auto dest: set_dropWhileD)
    qed
  qed
qed

lemma set_join_split_ws: "set (join [32] (split_ws s)) \<subseteq> insert 32 (set s)"
  using set_join [of "[32]" "split_ws s"] set_split_ws [of _ s] by auto

lemma split_ws_join:
  "good_words ws \<Longrightarrow> split_ws (join [32] ws) = ws"
proof (induction ws)
  case Nil
  have "split_ws [] = []" by (rule split_ws_Nil) simp
  then show ?case by simp
next
  case (Cons w ws)
  then obtain c cs where w: "w = c # cs" and c: "\<not> is_space c" and cs: "\<forall>x\<in>set cs. \<not> is_space x"
    by (cases w) auto
  have gw: "good_words ws" using Cons.prems by simp
  show ?case
  proof (cases ws)
    case Nil
    have "split_ws (c # cs) = (c # takeWhile (\<lambda>x. \<not> is_space x) cs) # split_ws (dropWhile (\<lambda>x. \<not> is_space x) cs)"
      using c by (intro split_ws_Cons) simp
    moreover have "takeWhile (\<lambda>x. \<not> is_space x) cs = cs" "dropWhile (\<lambda>x. \<not> is_space x) cs = []"
      using cs by simp_all
    moreover have "split_ws [] = []" by (rule split_ws_Nil) simp
    ultimately show ?thesis using Nil w by simp
  next
    case (Cons v vs)
    let ?r = "join [32] ws"
    have j: "join [32] (w # ws) = c # cs @ 32 # ?r"
      using Cons w by simp
    have "split_ws (c # cs @ 32 # ?r) =
        (c # takeWhile (\<lambda>x. \<not> is_space x) (cs @ 32 # ?r)) #
          split_ws (dropWhile (\<lambda>x. \<not> is_space x) (cs @ 32 # ?r))"
      using c by (intro split_ws_Cons) simp
    moreover have "takeWhile (\<lambda>x. \<not> is_space x) (cs @ 32 # ?r) = cs"
      using cs by simp
    moreover have "dropWhile (\<lambda>x. \<not> is_space x) (cs @ 32 # ?r) = 32 # ?r"
      using cs by simp
    moreover have "split_ws (32 # ?r) = split_ws ?r"
      by (metis split_ws_drop dropWhile.simps(2) is_space_32)
    ultimately show ?thesis
      using Cons.IH [OF gw] j w by simp
  qed
qed

lemma split_ws_map:
  assumes "\<And>c. is_space (q c) = is_space c"
  shows "split_ws (map q s) = map (map q) (split_ws s)"
proof (induction s rule: split_ws.induct)
  case (1 s)
  have dw: "dropWhile is_space (map q s) = map q (dropWhile is_space s)"
    by (simp add: dropWhile_map comp_def assms)
  show ?case
  proof (cases "dropWhile is_space s")
    case Nil
    then have "split_ws s = []" "split_ws (map q s) = []"
      using dw by (simp_all only: split_ws_Nil list.map)
    then show ?thesis by simp
  next
    case (Cons c cs)
    let ?n = "\<lambda>x. \<not> is_space x"
    have "dropWhile is_space (map q s) = q c # map q cs"
      using dw Cons by simp
    note l = split_ws_Cons [OF this]
    have tk: "takeWhile ?n (map q cs) = map q (takeWhile ?n cs)"
      by (simp add: takeWhile_map comp_def assms)
    have dr: "dropWhile ?n (map q cs) = map q (dropWhile ?n cs)"
      by (simp add: dropWhile_map comp_def assms)
    have ih: "split_ws (map q (dropWhile ?n cs)) = map (map q) (split_ws (dropWhile ?n cs))"
      using Cons by (rule "1.IH")
    have "split_ws (map q s) = map (map q) ((c # takeWhile ?n cs) # split_ws (dropWhile ?n cs))"
      by (simp only: l tk dr ih list.map)
    then show ?thesis
      by (simp only: split_ws_Cons [OF Cons])
  qed
qed

lemma takeWhile_trailing: "\<forall>c\<in>set t. \<not> P c \<Longrightarrow> takeWhile P (cs @ t) = takeWhile P cs"
proof (induction cs)
  case Nil
  then show ?case by (cases t) auto
next
  case (Cons c cs)
  then show ?case by simp
qed

lemma dropWhile_trailing: "\<forall>c\<in>set t. \<not> P c \<Longrightarrow> dropWhile P (cs @ t) = dropWhile P cs @ t"
proof (induction cs)
  case Nil
  then show ?case by (cases t) auto
next
  case (Cons c cs)
  then show ?case by simp
qed

lemma split_ws_trailing:
  "\<forall>c\<in>set t. is_space c \<Longrightarrow> split_ws (s @ t) = split_ws s"
proof (induction s rule: split_ws.induct)
  case (1 s)
  show ?case
  proof (cases "dropWhile is_space s")
    case Nil
    then have "\<forall>x\<in>set (s @ t). is_space x"
      using 1(2) by auto
    then have "dropWhile is_space (s @ t) = []"
      by (simp only: dropWhile_eq_Nil_conv)
    then show ?thesis using Nil by (simp only: split_ws_Nil)
  next
    case (Cons c cs)
    then have ex: "\<exists>x\<in>set s. \<not> is_space x"
      by (metis dropWhile_eq_Nil_conv list.distinct(1))
    then obtain x where "x \<in> set s" "\<not> is_space x"
      by blast
    then have "dropWhile is_space (s @ t) = dropWhile is_space s @ t"
      by (rule dropWhile_append1)
    then have dw: "dropWhile is_space (s @ t) = c # (cs @ t)"
      using Cons by simp
    let ?n = "\<lambda>x. \<not> is_space x"
    have t: "\<forall>c\<in>set t. \<not> ?n c"
      using 1(2) by simp
    have tk: "takeWhile ?n (cs @ t) = takeWhile ?n cs"
      using t by (rule takeWhile_trailing)
    have dr: "dropWhile ?n (cs @ t) = dropWhile ?n cs @ t"
      using t by (rule dropWhile_trailing)
    have "split_ws (dropWhile ?n cs @ t) = split_ws (dropWhile ?n cs)"
      using Cons 1(2) by (rule "1.IH")
    then show ?thesis
      by (simp only: split_ws_Cons [OF dw] split_ws_Cons [OF Cons] tk dr)
  qed
qed

subsection \<open>Tags\<close>

lemma gt_neq_lt [simp]: "gt \<noteq> lt"
  by (simp add: lt_def gt_def)

lemma after_gt_None: "after_gt cs = None \<longleftrightarrow> gt \<notin> set cs"
  by (induction cs) auto

lemma after_gt_Some: "after_gt cs = Some r \<Longrightarrow> \<exists>p. cs = p @ gt # r \<and> gt \<notin> set p"
proof (induction cs)
  case Nil
  then show ?case by simp
next
  case (Cons c cs)
  show ?case
  proof (cases "c = gt")
    case True
    with Cons.prems show ?thesis by (intro exI [of _ "[]"]) simp
  next
    case False
    with Cons obtain p where "cs = p @ gt # r" "gt \<notin> set p" by auto
    with False show ?thesis by (intro exI [of _ "c # p"]) simp
  qed
qed

lemma tag_end_None: "tag_end cs = None \<longleftrightarrow> cs = [] \<or> hd cs = gt \<or> gt \<notin> set (tl cs)"
  by (cases cs) (auto simp: tag_end_def after_gt_None)

lemma tag_end_Some: "tag_end cs = Some r \<Longrightarrow> set r \<subseteq> set cs"
  by (cases cs) (auto simp: tag_end_def split: if_splits dest!: after_gt_Some)

lemma tag_end_absent: "gt \<notin> set cs \<Longrightarrow> tag_end cs = None"
  by (cases cs) (auto simp: tag_end_None)

lemma set_remove_tags: "set (remove_tags s) \<subseteq> set s"
proof (induction s rule: remove_tags.induct)
  case 1
  then show ?case by simp
next
  case (2 c cs)
  show ?case
  proof (cases "if c = lt then tag_end cs else None")
    case None
    with 2 show ?thesis by auto
  next
    case (Some r)
    then have "tag_end cs = Some r" by (simp split: if_splits)
    then have "set r \<subseteq> set cs" by (rule tag_end_Some)
    with 2 Some show ?thesis by auto
  qed
qed

lemma tag_end_remove_tags: "tag_end cs = None \<Longrightarrow> tag_end (remove_tags cs) = None"
proof (cases cs)
  case Nil
  then show ?thesis by (simp add: tag_end_def)
next
  case (Cons d ds)
  assume n: "tag_end cs = None"
  show ?thesis
  proof (cases "d = gt")
    case True
    then show ?thesis using Cons by (simp add: tag_end_def)
  next
    case False
    with n Cons have "gt \<notin> set cs" by (simp add: tag_end_None)
    then have "gt \<notin> set (remove_tags cs)" using set_remove_tags by blast
    then show ?thesis by (rule tag_end_absent)
  qed
qed

lemma notag_remove_tags: "notag (remove_tags s)"
proof (induction s rule: remove_tags.induct)
  case 1
  then show ?case by simp
next
  case (2 c cs)
  show ?case
  proof (cases "if c = lt then tag_end cs else None")
    case None
    then have "c = lt \<longrightarrow> tag_end (remove_tags cs) = None"
      by (auto split: if_splits intro: tag_end_remove_tags)
    with 2 None show ?thesis by simp
  next
    case (Some r)
    with 2 show ?thesis by simp
  qed
qed

lemma remove_tags_notag: "notag s \<Longrightarrow> remove_tags s = s"
  by (induction s) auto

lemma notag_suffix: "notag (a @ b) \<Longrightarrow> notag b"
  by (induction a) auto

text \<open>Replacing what follows a word keeps the text free of tags.\<close>

lemma notag_replace_rest:
  assumes "notag r'" "gt \<in> set r' \<longrightarrow> gt \<in> set r" "r = [] \<or> hd r \<noteq> gt"
  shows "notag (w @ r) \<Longrightarrow> notag (w @ r')"
proof (induction w)
  case Nil
  then show ?case using assms by simp
next
  case (Cons c w)
  have "tag_end (w @ r') = None" if "tag_end (w @ r) = None"
  proof (cases w)
    case Nil
    with that assms(3) have "gt \<notin> set r"
      by (cases r) (auto simp: tag_end_None)
    with assms(2) have "gt \<notin> set r'" by blast
    then show ?thesis using Nil by (simp add: tag_end_absent)
  next
    case (Cons e w')
    show ?thesis
    proof (cases "e = gt")
      case True
      then show ?thesis using Cons by (simp add: tag_end_None)
    next
      case False
      with that Cons have "gt \<notin> set w'" "gt \<notin> set r" by (auto simp: tag_end_None)
      with assms(2) show ?thesis using Cons by (auto simp: tag_end_None)
    qed
  qed
  with Cons show ?case by simp
qed

lemma notag_words: "notag s \<Longrightarrow> notag (join [32] (split_ws s))"
proof (induction s rule: split_ws.induct)
  case (1 s)
  show ?case
  proof (cases "dropWhile is_space s")
    case Nil
    then show ?thesis by (simp add: split_ws_Nil)
  next
    case (Cons c cs)
    let ?n = "\<lambda>x. \<not> is_space x"
    let ?w = "c # takeWhile ?n cs" and ?rest = "dropWhile ?n cs"
    have "s = takeWhile is_space s @ (c # cs)"
      using Cons takeWhile_dropWhile_id [of is_space s] by simp
    then have "notag (c # cs)"
      using "1.prems" notag_suffix by metis
    then have nt: "notag (?w @ ?rest)" by simp
    then have "notag ?rest" by (rule notag_suffix)
    then have ih: "notag (join [32] (split_ws ?rest))"
      using Cons by (intro "1.IH")
    have hd: "?rest = [] \<or> hd ?rest \<noteq> gt"
    proof (cases "?rest = []")
      case True
      then show ?thesis by simp
    next
      case False
      then have "\<not> ?n (hd ?rest)" by (rule hd_dropWhile)
      then show ?thesis using not_space_gt by metis
    qed
    have sub: "gt \<in> set (join [32] (split_ws ?rest)) \<longrightarrow> gt \<in> set ?rest"
      using set_join_split_ws [of ?rest] by auto
    have "notag (join [32] (?w # split_ws ?rest))"
    proof (cases "split_ws ?rest = []")
      case True
      have "notag (?w @ [])"
        using _ _ hd nt by (rule notag_replace_rest) simp_all
      with True show ?thesis by simp
    next
      case False
      have "notag (?w @ (32 # join [32] (split_ws ?rest)))"
        using _ _ hd nt by (rule notag_replace_rest) (use ih sub in simp_all)
      with False show ?thesis by (simp add: join_Cons)
    qed
    then show ?thesis by (simp only: split_ws_Cons [OF Cons])
  qed
qed

lemma tag_end_map:
  assumes "\<And>c. q c = gt \<longleftrightarrow> c = gt"
  shows "tag_end (map q cs) = None \<longleftrightarrow> tag_end cs = None"
proof -
  have a: "gt = q c \<longleftrightarrow> c = gt" for c
    by (subst eq_commute) (rule assms)
  have m: "gt \<in> set (map q l) \<longleftrightarrow> gt \<in> set l" for l
  proof (induction l)
    case Nil
    then show ?case by simp
  next
    case (Cons e l)
    then show ?case using a [of e] by auto
  qed
  show ?thesis
  proof (cases cs)
    case Nil
    then show ?thesis by simp
  next
    case (Cons d ds)
    then show ?thesis using m [of ds] by (simp add: tag_end_None assms)
  qed
qed

lemma notag_map:
  assumes "\<And>c. q c = gt \<longleftrightarrow> c = gt" "\<And>c. q c = lt \<longleftrightarrow> c = lt"
  shows "notag (map q s) = notag s"
  by (induction s) (simp_all add: assms tag_end_map)

subsection \<open>strip\<close>

lemma dropWhile_hd: "xs = [] \<or> \<not> P (hd xs) \<Longrightarrow> dropWhile P xs = xs"
  by (cases xs) auto

lemma strip_id:
  assumes "s = [] \<or> \<not> is_space (hd s) \<and> \<not> is_space (last s)"
  shows "strip s = s"
proof -
  have "lstrip s = s"
    unfolding lstrip_def using assms by (intro dropWhile_hd) auto
  moreover have "rev s = [] \<or> \<not> is_space (hd (rev s))"
    using assms by (auto simp: hd_rev)
  then have "dropWhile is_space (rev s) = rev s"
    by (rule dropWhile_hd)
  ultimately show ?thesis by (simp add: strip_def rstrip_def)
qed

lemma hd_join: "good_words ws \<Longrightarrow> ws \<noteq> [] \<Longrightarrow> hd (join [32] ws) = hd (hd ws)"
  by (cases ws) (auto simp: join_Cons)

lemma join_eq_Nil: "good_words ws \<Longrightarrow> join [32] ws = [] \<longleftrightarrow> ws = []"
  by (cases ws) (auto simp: join_Cons)

lemma last_join: "good_words ws \<Longrightarrow> ws \<noteq> [] \<Longrightarrow> last (join [32] ws) = last (last ws)"
proof (induction ws)
  case Nil
  then show ?case by simp
next
  case (Cons w ws)
  then show ?case
    by (cases "ws = []") (auto simp: join_Cons join_eq_Nil)
qed

lemma strip_join: "good_words ws \<Longrightarrow> strip (join [32] ws) = join [32] ws"
proof (cases "ws = []")
  case True
  then show ?thesis by (simp add: strip_defs)
next
  case False
  assume g: "good_words ws"
  from False g have "hd ws \<in> set ws" "last ws \<in> set ws" by simp_all
  with g have "hd ws \<noteq> []" "last ws \<noteq> []" "\<forall>c\<in>set (hd ws). \<not> is_space c" "\<forall>c\<in>set (last ws). \<not> is_space c"
    by (auto simp: good_words_def)
  then have "\<not> is_space (hd (hd ws))" "\<not> is_space (last (last ws))"
    by simp_all
  then show ?thesis
    using g False by (intro strip_id) (simp add: hd_join last_join)
qed

lemma good_words_map: "good_words ws \<Longrightarrow> good_words (map (map unquote) ws)"
  by (auto simp: good_words_def)

text \<open>The normal form of \<open>normalize_text\<close>.\<close>

lemma normalize_text_eq:
  "normalize_text x = join [32] (map (map unquote) (split_ws (remove_tags x)))"
proof (cases "x = []")
  case True
  have "split_ws [] = []" by (rule split_ws_Nil) simp
  with True show ?thesis by (simp add: normalize_text_def)
next
  case False
  let ?ws = "map (map unquote) (split_ws (remove_tags x))"
  have "map unquote (join [32] (split_ws (remove_tags x))) = join [32] ?ws"
    by (simp add: map_join unquote_def)
  moreover have "strip (join [32] ?ws) = join [32] ?ws"
    by (intro strip_join good_words_map good_split_ws)
  ultimately show ?thesis
    using False by (simp add: normalize_text_def replace_quotes)
qed

text \<open>
  C7. Normalizing a normalized text changes nothing.
\<close>

theorem normalize_text_idempotent:
  "normalize_text (normalize_text x) = normalize_text x"
proof -
  let ?ws = "map (map unquote) (split_ws (remove_tags x))"
  let ?n = "join [32] ?ws"
  have g: "good_words ?ws"
    by (intro good_words_map good_split_ws)
  have "notag (join [32] (split_ws (remove_tags x)))"
    by (intro notag_words notag_remove_tags)
  then have "notag (map unquote (join [32] (split_ws (remove_tags x))))"
    by (simp add: notag_map)
  then have "notag ?n"
    by (simp add: map_join unquote_def)
  then have "remove_tags ?n = ?n"
    by (rule remove_tags_notag)
  moreover have "split_ws ?n = ?ws"
    using g by (rule split_ws_join)
  moreover have "unquote \<circ> unquote = unquote"
    by (simp add: fun_eq_iff)
  ultimately have "join [32] (map (map unquote) (split_ws (remove_tags ?n))) = ?n"
    by simp
  then show ?thesis
    by (simp only: normalize_text_eq)
qed

lemma normalize_quoted:
  "normalize_text (p_description quoted) = str ''It'' @ [39] @ str ''s '' @ [34] @ str ''safe'' @ [34] @ str ''.''"
  by (simp add: quoted_def normalize_defs eval_defs)

theorem normalize_text_idempotent_witness:
  "normalize_text (p_description quoted) =
     str ''It'' @ [39] @ str ''s '' @ [34] @ str ''safe'' @ [34] @ str ''.'' \<and>
   normalize_text (str ''It'' @ [39] @ str ''s '' @ [34] @ str ''safe'' @ [34] @ str ''.'') =
     str ''It'' @ [39] @ str ''s '' @ [34] @ str ''safe'' @ [34] @ str ''.''"
  using normalize_text_idempotent [of "p_description quoted"] normalize_quoted
  by simp

lemma after_gt_append:
  "gt \<notin> set t \<Longrightarrow> after_gt (cs @ t) = map_option (\<lambda>r. r @ t) (after_gt cs)"
  by (induction cs) (auto simp: after_gt_None)

lemma tag_end_append:
  "gt \<notin> set t \<Longrightarrow> tag_end (cs @ t) = map_option (\<lambda>r. r @ t) (tag_end cs)"
proof (cases cs)
  case Nil
  assume "gt \<notin> set t"
  then show ?thesis using Nil by (simp add: tag_end_absent)
next
  case (Cons d ds)
  assume "gt \<notin> set t"
  then show ?thesis using Cons by (simp add: tag_end_def after_gt_append)
qed

lemma notag_absent: "gt \<notin> set t \<Longrightarrow> notag t"
  by (induction t) (auto simp: tag_end_absent)

lemma remove_tags_append:
  "gt \<notin> set t \<Longrightarrow> remove_tags (s @ t) = remove_tags s @ t"
proof (induction s rule: remove_tags.induct)
  case 1
  then show ?case by (simp add: remove_tags_notag notag_absent)
next
  case (2 c cs)
  show ?case
  proof (cases "if c = lt then tag_end cs else None")
    case None
    then have "(if c = lt then tag_end (cs @ t) else None) = None"
      using 2(3) by (simp add: tag_end_append split: if_splits)
    then show ?thesis using None 2 by simp
  next
    case (Some r)
    then have "(if c = lt then tag_end (cs @ t) else None) = Some (r @ t)"
      using 2(3) by (simp add: tag_end_append split: if_splits)
    then show ?thesis using Some 2 by simp
  qed
qed

lemma after_gt_map:
  assumes "\<And>c. q c = gt \<longleftrightarrow> c = gt"
  shows "after_gt (map q cs) = map_option (map q) (after_gt cs)"
  by (induction cs) (simp_all add: assms)

lemma tag_end_map_eq:
  assumes "\<And>c. q c = gt \<longleftrightarrow> c = gt"
  shows "tag_end (map q cs) = map_option (map q) (tag_end cs)"
  by (cases cs) (simp_all add: tag_end_def assms after_gt_map)

lemma remove_tags_map:
  assumes "\<And>c. q c = gt \<longleftrightarrow> c = gt" "\<And>c. q c = lt \<longleftrightarrow> c = lt"
  shows "remove_tags (map q s) = map q (remove_tags s)"
proof (induction s rule: remove_tags.induct)
  case 1
  then show ?case by simp
next
  case (2 c cs)
  show ?case
  proof (cases "if c = lt then tag_end cs else None")
    case None
    then have "(if q c = lt then tag_end (map q cs) else None) = None"
      by (simp add: assms tag_end_map_eq split: if_splits)
    then show ?thesis using None 2 by simp
  next
    case (Some r)
    then have "(if q c = lt then tag_end (map q cs) else None) = Some (map q r)"
      by (simp add: assms tag_end_map_eq split: if_splits)
    then show ?thesis using Some 2 by simp
  qed
qed

text \<open>
  The normalizer sees a text only through its straightened quotes, and not at all
  through white space at its end.
\<close>

lemma normalize_text_unquote:
  "normalize_text x = join [32] (split_ws (remove_tags (map unquote x)))"
proof -
  have "map (map unquote) (split_ws (remove_tags x)) = split_ws (map unquote (remove_tags x))"
    by (simp add: split_ws_map)
  also have "map unquote (remove_tags x) = remove_tags (map unquote x)"
    by (simp add: remove_tags_map)
  finally show ?thesis by (simp add: normalize_text_eq)
qed

lemma normalize_text_trailing:
  assumes "\<forall>c\<in>set t. is_space c"
  shows "normalize_text (x @ t) = normalize_text x"
proof -
  have "gt \<notin> set t" using assms not_space_gt by blast
  then have "remove_tags (x @ t) = remove_tags x @ t"
    by (rule remove_tags_append)
  moreover have "split_ws (remove_tags x @ t) = split_ws (remove_tags x)"
    using assms by (rule split_ws_trailing)
  ultimately show ?thesis by (simp add: normalize_text_eq)
qed


section \<open>Properties of the perk parser\<close>

lemma split_on_nonempty: "split_on sep s \<noteq> []"
  by (induction sep s rule: split_on.induct) (auto split: list.splits)

text \<open>The index 1 of \<open>parse_source_perks\<close> is in range where it is read.\<close>

lemma split_on_length:
  "sep \<noteq> [] \<Longrightarrow> contains s sep \<Longrightarrow> 1 < length (split_on sep s)"
proof (induction s)
  case Nil
  then show ?case by simp
next
  case (Cons c s)
  show ?case
  proof (cases "startswith (c # s) sep")
    case True
    then show ?thesis
      using Cons.prems(1) split_on_nonempty [of sep "drop (length sep - 1) s"]
      by (cases "split_on sep (drop (length sep - 1) s)") simp_all
  next
    case False
    with Cons have "1 < length (split_on sep s)" by simp
    with False show ?thesis by (cases "split_on sep s") auto
  qed
qed

lemma desc_section_in_range:
  "contains text (str ''## Full Perk Descriptions'') \<Longrightarrow>
   1 < length (split_on (str ''## Full Perk Descriptions'') text)"
  by (rule split_on_length) simp_all

lemma scan_block_lines_description:
  "snd (scan_block_lines ls prereq acc) = acc @ filter is_description_line ls"
  by (induction ls prereq acc rule: scan_block_lines.induct)
    (simp_all add: is_description_line_def del: str_Cons str_Nil)

lemma filter_description_lines:
  "filter is_description_line (filter (\<lambda>l. \<not> startswith l (str ''**Prerequisite:**'')) ls) =
   filter is_description_line ls"
  by (induction ls) (auto simp: is_description_line_def simp del: str_Cons str_Nil)

lemma parse_block_eq:
  "parse_block lower perks block =
     (if block_name block \<notin> set category_headers \<and> block_name block \<noteq> [] \<and>
         block_description block \<noteq> []
      then AList.update (lower (block_name block))
             \<lparr>p_name = block_name block,
              p_prerequisite = fst (scan_block_lines (tl (block_lines block)) [] []),
              p_description = block_description block\<rparr> perks
      else perks)"
proof -
  obtain first body where fb: "split_on nl (strip block) = first # body"
    using split_on_nonempty [of nl "strip block"] by (cases "split_on nl (strip block)") auto
  have d: "snd (scan_block_lines body [] []) = filter is_description_line body"
    by (simp add: scan_block_lines_description)
  show ?thesis
    using d
    by (simp add: parse_block_def block_name_def block_description_def block_lines_def fb
        Let_def case_prod_beta del: str_Cons str_Nil)
qed

lemma set_update_subset: "set (AList.update k v al) \<subseteq> insert (k, v) (set al)"
  by (induction al) auto

lemma foldl_invariant:
  assumes "P a" "\<And>a x. P a \<Longrightarrow> P (f a x)"
  shows "P (foldl f a xs)"
  using assms(1) by (induction xs arbitrary: a) (simp_all add: assms(2))

lemma parse_block_ok:
  assumes "list_all (record_ok lower) perks"
  shows "list_all (record_ok lower) (parse_block lower perks block)"
proof (cases "block_name block \<notin> set category_headers \<and> block_name block \<noteq> [] \<and>
    block_description block \<noteq> []")
  case False
  then show ?thesis using assms by (auto simp: parse_block_eq)
next
  case True
  let ?r = "\<lparr>p_name = block_name block,
      p_prerequisite = fst (scan_block_lines (tl (block_lines block)) [] []),
      p_description = block_description block\<rparr>"
  have "list_all (\<lambda>l. \<not> startswith l (str ''**Prerequisite:**''))
      (filter is_description_line (tl (block_lines block)))"
    by (simp add: list_all_iff is_description_line_def del: str_Cons str_Nil)
  then have "record_ok lower (lower (block_name block), ?r)"
    using True unfolding record_ok_def block_description_def by (auto simp del: str_Cons str_Nil)
  moreover have "set (parse_block lower perks block) \<subseteq>
      insert (lower (block_name block), ?r) (set perks)"
    using True by (simp add: parse_block_eq set_update_subset)
  ultimately show ?thesis
    using assms unfolding list_all_iff by blast
qed

lemma parse_source_perks_ok: "list_all (record_ok lower) (parse_source_perks lower text)"
  unfolding parse_source_perks_def Let_def
  by (rule foldl_invariant) (simp_all add: parse_block_ok)

lemma header_capital: "h \<in> set category_headers \<Longrightarrow> \<exists>c\<in>set h. 65 \<le> c \<and> c \<le> 90"
  by (auto simp: category_headers_def)

text \<open>
  C8. A block whose trimmed header line is one of the three category headers leaves the
  dictionary as it was; no record of the parsed source carries a category header as its
  name; and no category header is a key of the parsed source, the keys being lowercased.
\<close>

theorem category_headers_skipped:
  "(block_name block \<in> set category_headers \<longrightarrow> parse_block lower perks block = perks) \<and>
   (\<forall>k p. (k, p) \<in> set (parse_source_perks lower text) \<longrightarrow>
      p_name p \<notin> set category_headers) \<and>
   (no_capitals lower \<longrightarrow>
      (\<forall>h\<in>set category_headers. map_of (parse_source_perks lower text) h = None))"
proof -
  have ok: "record_ok lower (k, p)" if "(k, p) \<in> set (parse_source_perks lower text)" for k p
    using parse_source_perks_ok [of lower "text"] that by (auto simp: list_all_iff)
  have 1: "block_name block \<in> set category_headers \<longrightarrow> parse_block lower perks block = perks"
    by (simp add: parse_block_eq)
  have 2: "p_name p \<notin> set category_headers"
    if "(k, p) \<in> set (parse_source_perks lower text)" for k p
    using ok [OF that] by (simp add: record_ok_def)
  have 3: "map_of (parse_source_perks lower text) h = None"
    if nc: "no_capitals lower" and h: "h \<in> set category_headers" for h
  proof (rule ccontr)
    assume "map_of (parse_source_perks lower text) h \<noteq> None"
    then obtain p where "(h, p) \<in> set (parse_source_perks lower text)"
      by (auto dest: map_of_SomeD)
    then have "h = lower (p_name p)"
      using ok by (auto simp: record_ok_def)
    moreover obtain c where "c \<in> set h" "65 \<le> c \<and> c \<le> 90"
      using header_capital [OF h] by blast
    ultimately show False
      using nc unfolding no_capitals_def by blast
  qed
  from 1 2 3 show ?thesis by blast
qed

lemma no_capitals_ascii_lower: "no_capitals ascii_lower"
  by (auto simp: no_capitals_def ascii_lower_def)

lemma parse_perk_text: "parse_source_perks ascii_lower perk_text = [(str ''iron will'', iron_will)]"
  by (simp add: parse_source_perks_def parse_block_def perk_text_def iron_will_def
      category_headers_def eval_defs)

theorem category_headers_skipped_witness:
  "block_name header_block \<in> set category_headers \<and>
   parse_block ascii_lower [(str ''iron will'', iron_will)] header_block =
     [(str ''iron will'', iron_will)] \<and>
   no_capitals ascii_lower \<and>
   parse_source_perks ascii_lower perk_text = [(str ''iron will'', iron_will)] \<and>
   map_of (parse_source_perks ascii_lower perk_text) (str ''Spell-Based Perks'') = None"
proof -
  have h: "block_name header_block \<in> set category_headers"
    by (simp add: block_name_def block_lines_def header_block_def category_headers_def eval_defs)
  have m: "str ''Spell-Based Perks'' \<in> set category_headers"
    by (simp add: category_headers_def)
  note t = category_headers_skipped [of header_block ascii_lower "[(str ''iron will'', iron_will)]"
      perk_text]
  from t h have "parse_block ascii_lower [(str ''iron will'', iron_will)] header_block =
      [(str ''iron will'', iron_will)]"
    by blast
  moreover from t no_capitals_ascii_lower m
  have "map_of (parse_source_perks ascii_lower perk_text) (str ''Spell-Based Perks'') = None"
    by blast
  ultimately show ?thesis
    using h no_capitals_ascii_lower parse_perk_text by simp
qed

text \<open>
  C10. A block changes the dictionary only when its name and its description are both
  non-empty, and every parsed record has a non-empty name and a non-empty description,
  joined from lines none of which starts with the prerequisite marker; a block whose
  lines after the header are all prerequisite lines, separator lines or blank yields no
  record; and removing the prerequisite lines of a block, whatever they say, leaves the
  description lines the same.
\<close>

theorem record_needs_name_and_description:
  "(parse_block lower perks block \<noteq> perks \<longrightarrow>
      block_name block \<noteq> [] \<and> block_description block \<noteq> []) \<and>
   (\<forall>k p. (k, p) \<in> set (parse_source_perks lower text) \<longrightarrow>
      p_name p \<noteq> [] \<and> p_description p \<noteq> [] \<and>
      (\<exists>ls. p_description p = strip (join (str '' '') ls) \<and>
         list_all (\<lambda>l. \<not> startswith l (str ''**Prerequisite:**'')) ls)) \<and>
   (list_all (\<lambda>l. startswith l (str ''**Prerequisite:**'') \<or> startswith l (str ''---'') \<or>
        strip l = []) (tl (block_lines block)) \<longrightarrow>
      parse_block lower perks block = perks) \<and>
   snd (scan_block_lines ls prereq acc) =
     snd (scan_block_lines (filter (\<lambda>l. \<not> startswith l (str ''**Prerequisite:**'')) ls) prereq' acc)"
proof -
  have ok: "record_ok lower (k, p)" if "(k, p) \<in> set (parse_source_perks lower text)" for k p
    using parse_source_perks_ok [of lower "text"] that by (auto simp: list_all_iff)
  have 1: "parse_block lower perks block \<noteq> perks \<longrightarrow>
      block_name block \<noteq> [] \<and> block_description block \<noteq> []"
    by (simp add: parse_block_eq)
  have 2: "p_name p \<noteq> [] \<and> p_description p \<noteq> [] \<and>
      (\<exists>ls. p_description p = strip (join (str '' '') ls) \<and>
         list_all (\<lambda>l. \<not> startswith l (str ''**Prerequisite:**'')) ls)"
    if "(k, p) \<in> set (parse_source_perks lower text)" for k p
    using ok [OF that] by (simp add: record_ok_def)
  have 3: "parse_block lower perks block = perks"
    if "list_all (\<lambda>l. startswith l (str ''**Prerequisite:**'') \<or> startswith l (str ''---'') \<or>
        strip l = []) (tl (block_lines block))"
  proof -
    have "filter is_description_line (tl (block_lines block)) = []"
      using that by (auto simp: filter_empty_conv list_all_iff is_description_line_def
          simp del: str_Cons str_Nil)
    then have "block_description block = []"
      by (simp add: block_description_def strip_defs)
    then show ?thesis by (simp add: parse_block_eq)
  qed
  have 4: "snd (scan_block_lines ls prereq acc) =
     snd (scan_block_lines (filter (\<lambda>l. \<not> startswith l (str ''**Prerequisite:**'')) ls) prereq' acc)"
    by (simp only: scan_block_lines_description filter_description_lines)
  from 1 2 3 4 show ?thesis by blast
qed

theorem record_needs_name_and_description_witness:
  "list_all (\<lambda>l. startswith l (str ''**Prerequisite:**'') \<or> startswith l (str ''---'') \<or>
      strip l = []) (tl (block_lines nameless_block)) \<and>
   parse_block ascii_lower [] nameless_block = [] \<and>
   parse_source_perks ascii_lower perk_text = [(str ''iron will'', iron_will)] \<and>
   p_description iron_will = str ''You resist fear.''"
proof -
  have h: "list_all (\<lambda>l. startswith l (str ''**Prerequisite:**'') \<or> startswith l (str ''---'') \<or>
      strip l = []) (tl (block_lines nameless_block))"
    by (simp add: block_lines_def nameless_block_def eval_defs)
  note t = record_needs_name_and_description [of ascii_lower "[]" nameless_block perk_text]
  from t h have "parse_block ascii_lower [] nameless_block = []"
    by blast
  then show ?thesis
    using h parse_perk_text by (simp add: iron_will_def)
qed

section \<open>Properties of the perk comparator\<close>

text \<open>
  The claim C2 as the specification words it covers every curly quote. The left single
  quote U+2018 is not among the characters the normalizer replaces: a source text with
  it and a generated text with the apostrophe in its place differ after normalization,
  share one word of three, and are reported.
\<close>

theorem left_single_quote_reported:
  "map straighten (p_description left_quoted) =
     map straighten (get_default (gp_description gen_left_quoted) []) \<and>
   compare_perks ascii_lower [(str ''quoted'', left_quoted)]
     [(str ''quoted.json'', Inr gen_left_quoted)] =
     Inr [ISSUES (str ''Quoted'') (str ''quoted.json'')
            [DESCRIPTION_MISMATCH (1 / 3), SOURCE (str ''Say '' @ [8216] @ str ''go'' @ [39]),
             GENERATED (str ''Say '' @ [39] @ str ''go'' @ [39])]] \<and>
   compare_perks ascii_lower [(str ''quoted'', left_quoted)]
     [(str ''quoted.json'', Inr gen_left_quoted)] \<noteq> Inr []"
  by (simp add: compare_perks_def file_discrepancies_def description_check_def similarity_def
      missing_perks_def left_quoted_def gen_left_quoted_def straighten_def normalize_defs
      eval_defs card_insert_if)

text \<open>
  C2, amended. A description mismatch is reported exactly when the normalized texts
  differ and the Jaccard index of their lowercased word sets, 0 when one of the sets is
  empty, is below 9/10. Texts that differ only in white space at their ends and in the
  quotes U+2019, U+201C, U+201D against their straight forms normalize to the same text,
  so the description check reports nothing and the file adds no discrepancy. For a perk
  of the source, the file adds one discrepancy with the issues of the description check
  when there are any, and nothing otherwise.
\<close>

theorem description_mismatch:
  "(description_check lower src gen \<noteq> [] \<longleftrightarrow>
      normalize_text (p_description src) \<noteq> normalize_text (get_default (gp_description gen) []) \<and>
      (let S = set (split_ws (lower (normalize_text (p_description src))));
           G = set (split_ws (lower (normalize_text (get_default (gp_description gen) []))))
       in (if S = {} \<or> G = {} then 0 else of_nat (card (S \<inter> G)) / of_nat (card (S \<union> G)))
            < (9 / 10 :: rat))) \<and>
   (\<forall>a b sa sb.
      p_description src = a @ sa \<and> gp_description gen = Some (b @ sb) \<and>
      map unquote a = map unquote b \<and> (\<forall>c\<in>set sa. is_space c) \<and> (\<forall>c\<in>set sb. is_space c) \<longrightarrow>
      description_check lower src gen = [] \<and>
      (map_of source (lower (gp_name gen)) = Some src \<longrightarrow>
         file_discrepancies lower source filename gen = [])) \<and>
   (map_of source (lower (gp_name gen)) = Some src \<longrightarrow>
      file_discrepancies lower source filename gen =
        (if description_check lower src gen \<noteq> []
         then [ISSUES (gp_name gen) filename (description_check lower src gen)] else []))"
proof -
  have 1: "description_check lower src gen \<noteq> [] \<longleftrightarrow>
      normalize_text (p_description src) \<noteq> normalize_text (get_default (gp_description gen) []) \<and>
      (let S = set (split_ws (lower (normalize_text (p_description src))));
           G = set (split_ws (lower (normalize_text (get_default (gp_description gen) []))))
       in (if S = {} \<or> G = {} then 0 else of_nat (card (S \<inter> G)) / of_nat (card (S \<union> G)))
            < (9 / 10 :: rat))"
    by (simp add: description_check_def similarity_def Let_def)
  have 2: "description_check lower src gen = [] \<and>
      (map_of source (lower (gp_name gen)) = Some src \<longrightarrow>
         file_discrepancies lower source filename gen = [])"
    if "p_description src = a @ sa" "gp_description gen = Some (b @ sb)"
      "map unquote a = map unquote b" "\<forall>c\<in>set sa. is_space c" "\<forall>c\<in>set sb. is_space c"
    for a b sa sb
  proof -
    have "normalize_text (a @ sa) = normalize_text a" "normalize_text (b @ sb) = normalize_text b"
      using that by (simp_all add: normalize_text_trailing)
    moreover have "normalize_text a = normalize_text b"
      using that(3) by (simp add: normalize_text_unquote)
    ultimately have "description_check lower src gen = []"
      using that(1,2) by (simp add: description_check_def get_default_def)
    then show ?thesis
      by (simp add: file_discrepancies_def)
  qed
  have 3: "map_of source (lower (gp_name gen)) = Some src \<longrightarrow>
      file_discrepancies lower source filename gen =
        (if description_check lower src gen \<noteq> []
         then [ISSUES (gp_name gen) filename (description_check lower src gen)] else [])"
    by (simp add: file_discrepancies_def)
  from 1 2 3 show ?thesis by blast
qed

theorem description_mismatch_witness:
  "description_check ascii_lower quoted gen_quoted = [] \<and>
   file_discrepancies ascii_lower [(str ''quoted'', quoted)] (str ''quoted.json'') gen_quoted = [] \<and>
   description_check ascii_lower iron_will gen_iron_will =
     [DESCRIPTION_MISMATCH (1 / 4), SOURCE (str ''You resist fear.''),
      GENERATED (str ''You resists.'')]"
proof -
  let ?a = "str ''It'' @ [8217] @ str ''s '' @ [8220] @ str ''safe'' @ [8221] @ str ''.''"
  let ?b = "str ''It'' @ [39] @ str ''s '' @ [34] @ str ''safe'' @ [34] @ str ''.''"
  have h: "p_description quoted = ?a @ str ''  ''" "gp_description gen_quoted = Some (?b @ [])"
    "map unquote ?a = map unquote ?b" "\<forall>c\<in>set (str ''  ''). is_space c"
    "\<forall>c\<in>set []. is_space c"
    "map_of [(str ''quoted'', quoted)] (ascii_lower (gp_name gen_quoted)) = Some quoted"
    by (simp_all add: quoted_def gen_quoted_def unquote_def is_space_def ascii_lower_def)
  note t = description_mismatch [of ascii_lower quoted gen_quoted "[(str ''quoted'', quoted)]"
      "str ''quoted.json''"]
  from t h have "description_check ascii_lower quoted gen_quoted = [] \<and>
      file_discrepancies ascii_lower [(str ''quoted'', quoted)] (str ''quoted.json'') gen_quoted = []"
    by blast
  moreover have "description_check ascii_lower iron_will gen_iron_will =
     [DESCRIPTION_MISMATCH (1 / 4), SOURCE (str ''You resist fear.''),
      GENERATED (str ''You resists.'')]"
    by (simp add: description_check_def similarity_def iron_will_def gen_iron_will_def
        normalize_defs eval_defs card_insert_if)
  ultimately show ?thesis by simp
qed

lemma compare_files_Inr:
  "compare_files lower source l = Inr ds \<Longrightarrow>
   ds = concat (map (per_file lower source) (filter is_json l)) \<and> all_loaded l"
proof (induction l arbitrary: ds)
  case Nil
  then show ?case by (simp add: all_loaded_def)
next
  case (Cons entry l)
  obtain fn c where e: "entry = (fn, c)" by (cases entry)
  show ?case
  proof (cases "endswith fn (str ''.json'')")
    case False
    with Cons e show ?thesis
      by (simp add: is_json_def all_loaded_def del: str_Cons str_Nil)
  next
    case True
    with Cons.prems e obtain g ds' where c: "c = Inr g"
      and r: "compare_files lower source l = Inr ds'"
      and ds: "ds = file_discrepancies lower source fn g @ ds'"
      by (auto split: sum.splits simp del: str_Cons str_Nil)
    from Cons.IH [OF r] show ?thesis
      using True e c ds by (simp add: is_json_def all_loaded_def per_file_def del: str_Cons str_Nil)
  qed
qed

lemma compare_files_Inl:
  "compare_files lower source l = Inl e \<Longrightarrow> \<not> all_loaded l"
proof (induction l)
  case Nil
  then show ?case by simp
next
  case (Cons entry l)
  obtain fn c where e: "entry = (fn, c)" by (cases entry)
  show ?case
  proof (cases "endswith fn (str ''.json'')")
    case False
    with Cons e show ?thesis
      by (simp add: is_json_def all_loaded_def del: str_Cons str_Nil)
  next
    case True
    show ?thesis
    proof (cases c)
      case (Inl x)
      with True e show ?thesis by (auto simp: is_json_def all_loaded_def simp del: str_Cons str_Nil)
    next
      case (Inr g)
      with Cons.prems True e have "compare_files lower source l = Inl e"
        by (auto split: sum.splits simp del: str_Cons str_Nil)
      then have "\<not> all_loaded l" by (rule Cons.IH)
      then show ?thesis by (auto simp: all_loaded_def)
    qed
  qed
qed

lemma generated_names_loaded:
  "all_loaded l \<Longrightarrow> generated_names lower l = Inr (names_of lower l)"
proof (induction l)
  case Nil
  then show ?case by (simp add: names_of_def)
next
  case (Cons entry l)
  obtain fn c where e: "entry = (fn, c)" by (cases entry)
  from Cons.prems have al: "all_loaded l" by (simp add: all_loaded_def)
  note ih = Cons.IH [OF al]
  show ?case
  proof (cases "endswith fn (str ''.json'')")
    case False
    then have "names_of lower (entry # l) = names_of lower l"
      using e by (auto simp: names_of_def simp del: str_Cons str_Nil)
    with False ih e show ?thesis by (simp del: str_Cons str_Nil)
  next
    case True
    with Cons.prems e obtain g where c: "c = Inr g"
      by (auto simp: all_loaded_def is_json_def simp del: str_Cons str_Nil)
    have "names_of lower (entry # l) = insert (lower (gp_name g)) (names_of lower l)"
      using e c True by (auto simp: names_of_def simp del: str_Cons str_Nil)
    with True ih e c show ?thesis by (simp del: str_Cons str_Nil)
  qed
qed

lemma names_of_cong: "set l = set l' \<Longrightarrow> names_of lower l = names_of lower l'"
  by (simp add: names_of_def)

lemma all_loaded_cong: "set l = set l' \<Longrightarrow> all_loaded l = all_loaded l'"
  by (simp add: all_loaded_def)

lemma d_file_file_discrepancies:
  "x \<in> set (file_discrepancies lower source fn g) \<Longrightarrow> d_file x = fn \<and> (\<forall>n. x \<noteq> MISSING n)"
  by (auto simp: file_discrepancies_def Let_def split: option.splits if_splits)

lemma d_file_per_file:
  "x \<in> set (per_file lower source entry) \<Longrightarrow> d_file x = fst entry \<and> (\<forall>n. x \<noteq> MISSING n)"
  by (cases "snd entry") (auto simp: per_file_def dest: d_file_file_discrepancies)

lemma sorted_per_file:
  "sorted (map fst l) \<Longrightarrow> sorted (map d_file (concat (map (per_file lower source) (filter is_json l))))"
proof (induction l)
  case Nil
  then show ?case by simp
next
  case (Cons entry l)
  let ?rest = "concat (map (per_file lower source) (filter is_json l))"
  have ih: "sorted (map d_file ?rest)"
    using Cons by simp
  have le: "fst entry \<le> d_file y" if "y \<in> set ?rest" for y
  proof -
    from that obtain e' where "e' \<in> set l" "y \<in> set (per_file lower source e')"
      by auto
    then have "d_file y = fst e'" "fst e' \<in> set (map fst l)"
      by (auto dest: d_file_per_file)
    with Cons.prems show ?thesis by auto
  qed
  have same: "d_file x = fst entry" if "x \<in> set (per_file lower source entry)" for x
    using that by (auto dest: d_file_per_file)
  have "sorted (map d_file (per_file lower source entry))"
    using same by (simp add: sorted_wrt_iff_nth_less)
  then have "sorted (map d_file (per_file lower source entry @ ?rest))"
    using ih le same by (auto simp: sorted_append)
  then show ?case using ih by simp
qed

text \<open>
  C9. The result does not depend on the order in which the directory is listed: two
  listings of the same files, with distinct names, give the same result, discrepancy
  list or exception. A discrepancy list is the per-file discrepancies in the order of
  the sorted file names (each carrying its file name, none of them a MISSING entry),
  followed by one MISSING entry for each source key without a generated name, in the
  order of the source dictionary, to which the parser only ever appends keys.
\<close>

theorem compare_perks_deterministic:
  "(distinct (map fst perks_dir) \<and> mset perks_dir' = mset perks_dir \<longrightarrow>
      compare_perks lower source perks_dir' = compare_perks lower source perks_dir) \<and>
   (\<forall>ds. compare_perks lower source perks_dir = Inr ds \<longrightarrow>
      ds = per_file_discrepancies lower source perks_dir @
           map (\<lambda>kp. MISSING (p_name (snd kp)))
             (filter (\<lambda>kp. fst kp \<notin> names_of lower perks_dir) source) \<and>
      sorted (map d_file (per_file_discrepancies lower source perks_dir)) \<and>
      (\<forall>x\<in>set (per_file_discrepancies lower source perks_dir). \<forall>n. x \<noteq> MISSING n)) \<and>
   (\<exists>ks. map fst (parse_block lower perks block) = map fst perks @ ks)"
proof -
  have run: "compare_perks lower source d =
      (if all_loaded d
       then Inr (per_file_discrepancies lower source d @ missing_perks source (names_of lower d))
       else Inl (case compare_files lower source (sort_key fst d) of Inl e \<Rightarrow> e))" for d
  proof (cases "compare_files lower source (sort_key fst d)")
    case (Inl e)
    then have "\<not> all_loaded (sort_key fst d)" by (rule compare_files_Inl)
    then have "\<not> all_loaded d" by (simp add: all_loaded_def)
    with Inl show ?thesis by (simp add: compare_perks_def)
  next
    case (Inr ds)
    then have ds: "ds = per_file_discrepancies lower source d" and "all_loaded (sort_key fst d)"
      using compare_files_Inr [OF Inr] by (simp_all add: per_file_discrepancies_def)
    then have al: "all_loaded d" by (simp add: all_loaded_def)
    then have "generated_names lower d = Inr (names_of lower d)"
      by (rule generated_names_loaded)
    with Inr ds al show ?thesis by (simp add: compare_perks_def)
  qed
  have 1: "compare_perks lower source perks_dir' = compare_perks lower source perks_dir"
    if "distinct (map fst perks_dir)" "mset perks_dir' = mset perks_dir"
  proof -
    have "inj_on fst (set perks_dir)"
      using that(1) by (simp add: distinct_map)
    then have s: "sort_key fst perks_dir = sort_key fst perks_dir'"
      using that(2) by (intro sort_key_eq_sort_key) simp_all
    have "set perks_dir' = set perks_dir"
      using that(2) by (rule mset_eq_setD)
    then show ?thesis
      by (simp add: run s per_file_discrepancies_def names_of_def all_loaded_def)
  qed
  have 2: "ds = per_file_discrepancies lower source perks_dir @
           map (\<lambda>kp. MISSING (p_name (snd kp)))
             (filter (\<lambda>kp. fst kp \<notin> names_of lower perks_dir) source)"
    if "compare_perks lower source perks_dir = Inr ds" for ds
    using that by (auto simp: run missing_perks_def case_prod_unfold split: if_splits)
  have 3: "sorted (map d_file (per_file_discrepancies lower source perks_dir))"
    unfolding per_file_discrepancies_def by (intro sorted_per_file) simp
  have 4: "\<forall>x\<in>set (per_file_discrepancies lower source perks_dir). \<forall>n. x \<noteq> MISSING n"
    by (auto simp: per_file_discrepancies_def dest: d_file_per_file)
  have 5: "\<exists>ks. map fst (parse_block lower perks block) = map fst perks @ ks"
    by (simp add: parse_block_eq update_keys)
  from 1 2 3 4 5 show ?thesis by blast
qed

lemma compare_perks_listing:
  "compare_perks ascii_lower source_two perks_listing =
     Inr [ISSUES (str ''Iron Will'') (str ''iron-will.json'')
            [DESCRIPTION_MISMATCH (1 / 4), SOURCE (str ''You resist fear.''),
             GENERATED (str ''You resists.'')],
          NOT_IN_SOURCE (str ''Lucky'') (str ''lucky.json''),
          MISSING (str ''Keen Eye'')]"
  by (simp add: compare_perks_def file_discrepancies_def description_check_def similarity_def
      missing_perks_def perks_listing_def source_two_def iron_will_def gen_iron_will_def
      keen_eye_def gen_lucky_def normalize_defs eval_defs card_insert_if)

theorem compare_perks_deterministic_witness:
  "distinct (map fst perks_listing) \<and> mset perks_listing' = mset perks_listing \<and>
   compare_perks ascii_lower source_two perks_listing' =
     Inr [ISSUES (str ''Iron Will'') (str ''iron-will.json'')
            [DESCRIPTION_MISMATCH (1 / 4), SOURCE (str ''You resist fear.''),
             GENERATED (str ''You resists.'')],
          NOT_IN_SOURCE (str ''Lucky'') (str ''lucky.json''),
          MISSING (str ''Keen Eye'')]"
proof -
  have d: "distinct (map fst perks_listing)"
    by (simp add: perks_listing_def)
  have m: "mset perks_listing' = mset perks_listing"
    by (simp add: perks_listing_def perks_listing'_def)
  from compare_perks_deterministic [of perks_listing perks_listing' ascii_lower source_two] d m
  have "compare_perks ascii_lower source_two perks_listing' =
      compare_perks ascii_lower source_two perks_listing"
    by blast
  then show ?thesis
    using d m by (simp add: compare_perks_listing)
qed

section \<open>Properties of the spell parser\<close>

lemma startswith_append: "startswith l (a @ b) \<Longrightarrow> startswith l a"
proof -
  assume "startswith l (a @ b)"
  then have "take (length a) (take (length (a @ b)) l) = take (length a) (a @ b)"
    by (simp only: startswith_def)
  then show ?thesis by (simp add: startswith_def)
qed

lemma crit_not_damage: "is_crit l \<Longrightarrow> \<not> is_damage l"
proof
  assume "is_crit l" "is_damage l"
  then have "startswith l (str ''**C'' @ str ''rit:**'')"
    "startswith l (str ''**D'' @ str ''amage Base:**'')"
    by (simp_all add: is_crit_def is_damage_def)
  then have "startswith l (str ''**C'')" "startswith l (str ''**D'')"
    by (blast dest: startswith_append)+
  then show False by (simp add: startswith_def)
qed

lemma spell_line_cases:
  "spell_line lower st raw =
     (if is_header (rstrip raw)
      then st\<lparr>spells := save_spell lower st, current_spell := Some (strip (drop 3 (rstrip raw))),
              current_damage := None, effect_lines := [], crit_lines := [], in_crit := False\<rparr>
      else if is_damage (rstrip raw)
      then st\<lparr>current_damage :=
                Some (if strip (replace (str ''**Damage Base:**'') [] (rstrip raw)) = str ''-'' then []
                      else lower (strip (replace (str ''**Damage Base:**'') [] (rstrip raw))))\<rparr>
      else if is_crit (rstrip raw)
      then st\<lparr>in_crit := True, crit_lines := crit_lines st @ crit_part (rstrip raw)\<rparr>
      else if current_spell st \<noteq> None \<and> current_spell st \<noteq> Some [] \<and> is_text_line (rstrip raw)
      then (if in_crit st then st\<lparr>crit_lines := crit_lines st @ [rstrip raw]\<rparr>
            else st\<lparr>effect_lines := effect_lines st @ [rstrip raw]\<rparr>)
      else st)"
  by (simp add: spell_line_def is_header_def is_damage_def is_crit_def is_text_line_def
      crit_part_def Let_def del: str_Cons str_Nil)

lemma in_crit_run:
  assumes "current_spell st = Some name" "name \<noteq> []" "in_crit st"
    "\<forall>l\<in>set body. \<not> is_header (rstrip l)"
  shows "current_spell (foldl (spell_line lower) st body) = Some name \<and>
         spells (foldl (spell_line lower) st body) = spells st \<and>
         in_crit (foldl (spell_line lower) st body) \<and>
         effect_lines (foldl (spell_line lower) st body) = effect_lines st \<and>
         crit_lines (foldl (spell_line lower) st body) =
           crit_lines st @ concat (map crit_part (map rstrip body))"
  using assms
proof (induction body arbitrary: st)
  case Nil
  then show ?case by simp
next
  case (Cons l body)
  let ?st = "spell_line lower st l"
  have h: "\<not> is_header (rstrip l)" using Cons.prems by simp
  have step: "current_spell ?st = Some name \<and> spells ?st = spells st \<and> in_crit ?st \<and>
      effect_lines ?st = effect_lines st \<and> crit_lines ?st = crit_lines st @ crit_part (rstrip l)"
    using h Cons.prems(1-3) by (auto simp: spell_line_cases crit_part_def)
  have "current_spell (foldl (spell_line lower) ?st body) = Some name \<and>
         spells (foldl (spell_line lower) ?st body) = spells ?st \<and>
         in_crit (foldl (spell_line lower) ?st body) \<and>
         effect_lines (foldl (spell_line lower) ?st body) = effect_lines ?st \<and>
         crit_lines (foldl (spell_line lower) ?st body) =
           crit_lines ?st @ concat (map crit_part (map rstrip body))"
    using step Cons.prems by (intro Cons.IH) simp_all
  with step show ?case by simp
qed

lemma block_run:
  assumes "current_spell st = Some name" "name \<noteq> []" "\<not> in_crit st"
    "\<forall>l\<in>set body. \<not> is_header (rstrip l)"
  shows "current_spell (foldl (spell_line lower) st body) = Some name \<and>
         spells (foldl (spell_line lower) st body) = spells st \<and>
         in_crit (foldl (spell_line lower) st body) = (\<exists>l\<in>set body. is_crit (rstrip l)) \<and>
         effect_lines (foldl (spell_line lower) st body) = effect_lines st @ block_effect_lines body \<and>
         crit_lines (foldl (spell_line lower) st body) = crit_lines st @ block_crit_lines body"
  using assms
proof (induction body arbitrary: st)
  case Nil
  then show ?case by (simp add: block_effect_lines_def block_crit_lines_def)
next
  case (Cons l body)
  let ?st = "spell_line lower st l"
  have h: "\<not> is_header (rstrip l)" and hs: "\<forall>l\<in>set body. \<not> is_header (rstrip l)"
    using Cons.prems by simp_all
  show ?case
  proof (cases "is_crit (rstrip l)")
    case True
    then have step: "current_spell ?st = Some name \<and> spells ?st = spells st \<and> in_crit ?st \<and>
        effect_lines ?st = effect_lines st \<and> crit_lines ?st = crit_lines st @ crit_part (rstrip l)"
      using h Cons.prems(1-3) by (auto simp: spell_line_cases crit_not_damage)
    then have "current_spell (foldl (spell_line lower) ?st body) = Some name \<and>
         spells (foldl (spell_line lower) ?st body) = spells ?st \<and>
         in_crit (foldl (spell_line lower) ?st body) \<and>
         effect_lines (foldl (spell_line lower) ?st body) = effect_lines ?st \<and>
         crit_lines (foldl (spell_line lower) ?st body) =
           crit_lines ?st @ concat (map crit_part (map rstrip body))"
      using Cons.prems(2) hs by (intro in_crit_run) simp_all
    with step True show ?thesis
      by (simp add: block_effect_lines_def block_crit_lines_def)
  next
    case False
    then have step: "current_spell ?st = Some name \<and> spells ?st = spells st \<and> \<not> in_crit ?st \<and>
        effect_lines ?st = effect_lines st @
          (if is_text_line (rstrip l) \<and> \<not> is_damage (rstrip l) then [rstrip l] else []) \<and>
        crit_lines ?st = crit_lines st"
      using h Cons.prems(1-3) by (auto simp: spell_line_cases)
    then have "current_spell (foldl (spell_line lower) ?st body) = Some name \<and>
         spells (foldl (spell_line lower) ?st body) = spells ?st \<and>
         in_crit (foldl (spell_line lower) ?st body) = (\<exists>l\<in>set body. is_crit (rstrip l)) \<and>
         effect_lines (foldl (spell_line lower) ?st body) = effect_lines ?st @ block_effect_lines body \<and>
         crit_lines (foldl (spell_line lower) ?st body) = crit_lines ?st @ block_crit_lines body"
      using Cons.prems(2) hs by (intro Cons.IH) simp_all
    with step False show ?thesis
      by (simp add: block_effect_lines_def block_crit_lines_def)
  qed
qed

lemma block_damage_snoc:
  "block_damage lower (body @ [l]) =
     (if is_damage (rstrip l) then Some (damage_of lower (rstrip l)) else block_damage lower body)"
  by (simp add: block_damage_def)

text \<open>
  Over lines that are no headers the damage field is what the last damage line sets, and
  is left as it was when there is none.
\<close>

lemma damage_run:
  "\<forall>l\<in>set body. \<not> is_header (rstrip l) \<Longrightarrow>
   current_damage (foldl (spell_line lower) st body) =
     (case block_damage lower body of None \<Rightarrow> current_damage st | Some d \<Rightarrow> Some d)"
proof (induction body rule: rev_induct)
  case Nil
  then show ?case by (simp add: block_damage_def)
next
  case (snoc l body)
  then have ih: "current_damage (foldl (spell_line lower) st body) =
      (case block_damage lower body of None \<Rightarrow> current_damage st | Some d \<Rightarrow> Some d)"
    and h: "\<not> is_header (rstrip l)"
    by simp_all
  have "current_damage (spell_line lower (foldl (spell_line lower) st body) l) =
      (if is_damage (rstrip l) then Some (damage_of lower (rstrip l))
       else current_damage (foldl (spell_line lower) st body))"
    using h by (simp add: spell_line_cases damage_of_def Let_def)
  with ih show ?case
    by (simp add: block_damage_snoc)
qed

lemma parse_spell_text:
  "parse_source_spells ascii_lower spell_text = [(str ''fireball'', fireball), (str ''aid'', aid)]"
  by (simp add: spell_defs spell_text_def fireball_body_def fireball_def aid_def eval_defs)

lemma fireball_buffers:
  "block_effect_lines fireball_body = [str ''Burns the target.'']"
  "block_crit_lines fireball_body = [str ''Double damage.'', str ''The target falls.'']"
  "claimed_effect_lines fireball_body = [str ''**Damage Base:** Fire'', str ''Burns the target.'']"
  by (simp_all add: block_effect_lines_def block_crit_lines_def claimed_effect_lines_def
      crit_part_def is_crit_def is_damage_def is_text_line_def fireball_body_def eval_defs)

lemma fireball_damage:
  "block_damage ascii_lower fireball_body = Some (str ''fire'')"
  by (simp add: block_damage_def damage_of_def is_damage_def fireball_body_def eval_defs)

text \<open>
  The claim C5 as the specification words it puts every non-empty line that is no
  separator, before the first crit marker, into the effect text. A damage line is such a
  line, and the parser gives it to the damage field only: in the block of Fireball the
  effect text is the one line after the damage line.
\<close>

theorem damage_line_not_in_effect:
  "split_on nl (strip spell_text) =
     str ''## Fireball'' # fireball_body @ [str ''## Aid'', str ''Helps.''] \<and>
   map_of (parse_source_spells ascii_lower spell_text) (str ''fireball'') = Some fireball \<and>
   s_effect fireball = str ''Burns the target.'' \<and>
   strip (join nl (claimed_effect_lines fireball_body)) =
     str ''**Damage Base:** Fire'' @ nl @ str ''Burns the target.'' \<and>
   s_effect fireball \<noteq> strip (join nl (claimed_effect_lines fireball_body))"
  by (simp add: parse_spell_text fireball_buffers)
    (simp add: spell_text_def fireball_body_def fireball_def eval_defs)

text \<open>
  C5, amended. For a block with a header line whose name is not empty, followed by lines
  that are no headers: the effect buffer holds, in order, the right-trimmed lines before
  the first crit marker that are non-empty, no separators and no damage lines; the crit
  buffer holds, from the first crit marker on, the text of each crit marker line (when
  not empty) and the non-empty lines that are no separators and no damage lines; the
  damage field is what the last damage line of the block sets, and \<open>None\<close> without one;
  the record saved for the block joins the two buffers and carries that damage field;
  and the next header empties both buffers, leaves crit mode and saves the record.
\<close>

theorem spell_block_buffers:
  assumes "is_header (rstrip header)" "strip (drop 3 (rstrip header)) \<noteq> []"
    "\<forall>l\<in>set body. \<not> is_header (rstrip l)"
  shows "current_spell (foldl (spell_line lower) st (header # body)) =
           Some (strip (drop 3 (rstrip header))) \<and>
         effect_lines (foldl (spell_line lower) st (header # body)) = block_effect_lines body \<and>
         crit_lines (foldl (spell_line lower) st (header # body)) = block_crit_lines body \<and>
         current_damage (foldl (spell_line lower) st (header # body)) = block_damage lower body \<and>
         save_spell lower (foldl (spell_line lower) st (header # body)) =
           AList.update (lower (strip (drop 3 (rstrip header))))
             \<lparr>s_name = strip (drop 3 (rstrip header)),
              s_damage = block_damage lower body,
              s_effect = strip (join nl (block_effect_lines body)),
              s_crit = strip (join nl (block_crit_lines body))\<rparr>
             (save_spell lower st) \<and>
         (\<forall>next_header. is_header (rstrip next_header) \<longrightarrow>
            effect_lines (foldl (spell_line lower) st (header # body @ [next_header])) = [] \<and>
            crit_lines (foldl (spell_line lower) st (header # body @ [next_header])) = [] \<and>
            \<not> in_crit (foldl (spell_line lower) st (header # body @ [next_header])) \<and>
            spells (foldl (spell_line lower) st (header # body @ [next_header])) =
              save_spell lower (foldl (spell_line lower) st (header # body)))"
proof -
  let ?name = "strip (drop 3 (rstrip header))"
  let ?st1 = "spell_line lower st header"
  let ?st2 = "foldl (spell_line lower) ?st1 body"
  have s1: "current_spell ?st1 = Some ?name" "\<not> in_crit ?st1" "effect_lines ?st1 = []"
    "crit_lines ?st1 = []" "spells ?st1 = save_spell lower st" "current_damage ?st1 = None"
    using assms(1) by (simp_all add: spell_line_cases)
  have r: "current_spell ?st2 = Some ?name \<and> spells ?st2 = spells ?st1 \<and>
      in_crit ?st2 = (\<exists>l\<in>set body. is_crit (rstrip l)) \<and>
      effect_lines ?st2 = effect_lines ?st1 @ block_effect_lines body \<and>
      crit_lines ?st2 = crit_lines ?st1 @ block_crit_lines body"
    using s1(1) assms(2) s1(2) assms(3) by (rule block_run)
  have d: "current_damage ?st2 = block_damage lower body"
    using damage_run [OF assms(3), of lower ?st1] s1(6)
    by (simp split: option.splits)
  have f: "foldl (spell_line lower) st (header # body) = ?st2"
    by simp
  have sv: "save_spell lower ?st2 =
      AList.update (lower ?name)
        \<lparr>s_name = ?name, s_damage = block_damage lower body,
         s_effect = strip (join nl (block_effect_lines body)),
         s_crit = strip (join nl (block_crit_lines body))\<rparr> (save_spell lower st)"
    using r s1 d assms(2) by (simp add: save_spell_def)
  have nx: "effect_lines (spell_line lower ?st2 h') = [] \<and> crit_lines (spell_line lower ?st2 h') = [] \<and>
      \<not> in_crit (spell_line lower ?st2 h') \<and> spells (spell_line lower ?st2 h') = save_spell lower ?st2"
    if "is_header (rstrip h')" for h'
    using that by (simp add: spell_line_cases)
  show ?thesis
    using r s1 d sv nx by (simp only: f foldl_append foldl_Cons foldl_Nil append_Nil) simp
qed

theorem spell_block_buffers_witness:
  "is_header (rstrip (str ''## Fireball'')) \<and> strip (drop 3 (rstrip (str ''## Fireball''))) \<noteq> [] \<and>
   list_all (\<lambda>l. \<not> is_header (rstrip l)) fireball_body \<and>
   effect_lines (foldl (spell_line ascii_lower) initial_state (str ''## Fireball'' # fireball_body)) =
     [str ''Burns the target.''] \<and>
   crit_lines (foldl (spell_line ascii_lower) initial_state (str ''## Fireball'' # fireball_body)) =
     [str ''Double damage.'', str ''The target falls.''] \<and>
   current_damage (foldl (spell_line ascii_lower) initial_state (str ''## Fireball'' # fireball_body)) =
     Some (str ''fire'') \<and>
   effect_lines (foldl (spell_line ascii_lower) initial_state
     (str ''## Fireball'' # fireball_body @ [str ''## Aid''])) = []"
proof -
  have h: "is_header (rstrip (str ''## Fireball''))"
    "strip (drop 3 (rstrip (str ''## Fireball''))) \<noteq> []"
    "is_header (rstrip (str ''## Aid''))"
    by (simp_all add: is_header_def eval_defs)
  have b: "\<forall>l\<in>set fireball_body. \<not> is_header (rstrip l)"
    by (simp add: fireball_body_def is_header_def eval_defs)
  note t = spell_block_buffers [OF h(1,2) b, of ascii_lower initial_state]
  from t h(3) have "effect_lines (foldl (spell_line ascii_lower) initial_state
     (str ''## Fireball'' # fireball_body @ [str ''## Aid''])) = []"
    by blast
  moreover from t have "effect_lines (foldl (spell_line ascii_lower) initial_state
      (str ''## Fireball'' # fireball_body)) = block_effect_lines fireball_body"
    "crit_lines (foldl (spell_line ascii_lower) initial_state
      (str ''## Fireball'' # fireball_body)) = block_crit_lines fireball_body"
    "current_damage (foldl (spell_line ascii_lower) initial_state
      (str ''## Fireball'' # fireball_body)) = block_damage ascii_lower fireball_body"
    by blast+
  ultimately show ?thesis
    using h b by (simp add: fireball_buffers fireball_damage list_all_iff)
qed

end
